theory Spec2Isabelle
  imports Complex_Main "HOL-Library.Word"
begin

section \<open>Ranker: \<open>src/shared/similarity.ts\<close>\<close>

text \<open>
  JavaScript numbers are modelled as real numbers: the arithmetic of the ranker is idealised
  (no rounding, no NaN, no infinities), its control flow is kept as written. A thrown
  \<open>Error\<close> is an \<open>Inl\<close> value.
\<close>

datatype error = LengthMismatch | TypeError

text \<open>The body of the \<open>for\<close> loop of \<open>cosineSimilarity\<close>: the three running sums
  \<open>(dotProduct, normA, normB)\<close>. The loop is only entered with vectors of equal length.\<close>

fun cosine_loop :: "real list \<Rightarrow> real list \<Rightarrow> real \<times> real \<times> real \<Rightarrow> real \<times> real \<times> real" where
  "cosine_loop (x # xs) (y # ys) (dotProduct, normA, normB) =
     cosine_loop xs ys (dotProduct + x * y, normA + x * x, normB + y * y)"
| "cosine_loop _ _ acc = acc"

definition cosineSimilarity :: "real list \<Rightarrow> real list \<Rightarrow> error + real" where
  "cosineSimilarity a b =
     (if length a \<noteq> length b then Inl LengthMismatch
      else
        (case cosine_loop a b (0, 0, 0) of (dotProduct, sumA, sumB) \<Rightarrow>
          (let normA = sqrt sumA; normB = sqrt sumB
           in if normA = 0 \<or> normB = 0 then Inr 0
              else Inr (dotProduct / (normA * normB)))))"

record scored =
  index :: nat
  score :: real

record embedded =
  embedding :: "real list"

text \<open>\<open>chunks.map((chunk, index) => ...)\<close>: the first throwing call aborts the map.\<close>

fun score_all :: "real list \<Rightarrow> nat \<Rightarrow> 'a embedded_scheme list \<Rightarrow> error + scored list" where
  "score_all queryEmbedding i [] = Inr []"
| "score_all queryEmbedding i (chunk # chunks) =
     (case cosineSimilarity queryEmbedding (embedding chunk) of
        Inl e \<Rightarrow> Inl e
      | Inr s \<Rightarrow>
          (case score_all queryEmbedding (i + 1) chunks of
             Inl e \<Rightarrow> Inl e
           | Inr rest \<Rightarrow> Inr (\<lparr>index = i, score = s\<rparr> # rest)))"

text \<open>\<open>Array.prototype.sort\<close> with a comparator is a stable sort (ECMAScript 2019 and
  later); with a consistent comparator its result is unique, and it is computed here by
  insertion: an element is put before the first element it does not compare greater than.\<close>

fun insort_cmp :: "('a \<Rightarrow> 'a \<Rightarrow> real) \<Rightarrow> 'a \<Rightarrow> 'a list \<Rightarrow> 'a list" where
  "insort_cmp cmp x [] = [x]"
| "insort_cmp cmp x (y # ys) =
     (if cmp x y \<le> 0 then x # y # ys else y # insort_cmp cmp x ys)"

definition array_sort :: "('a \<Rightarrow> 'a \<Rightarrow> real) \<Rightarrow> 'a list \<Rightarrow> 'a list" where
  "array_sort cmp xs = foldr (insort_cmp cmp) xs []"

text \<open>\<open>Array.prototype.slice(0, k)\<close>: the end is truncated towards zero to an integer
  (\<open>ToIntegerOrInfinity\<close>); a negative end counts from the end of the array.\<close>

definition toInteger :: "real \<Rightarrow> int" where
  "toInteger x = (if x < 0 then \<lceil>x\<rceil> else \<lfloor>x\<rfloor>)"

definition array_slice0 :: "real \<Rightarrow> 'a list \<Rightarrow> 'a list" where
  "array_slice0 k xs =
     (let len = int (length xs);
          relativeEnd = toInteger k;
          final = (if relativeEnd < 0 then max (len + relativeEnd) 0 else min relativeEnd len)
      in take (nat final) xs)"

definition findTopKSimilar ::
  "real list \<Rightarrow> 'a embedded_scheme list \<Rightarrow> real \<Rightarrow> real \<Rightarrow> error + scored list" where
  "findTopKSimilar queryEmbedding chunks k threshold =
     (case score_all queryEmbedding 0 chunks of
        Inl e \<Rightarrow> Inl e
      | Inr scores \<Rightarrow>
          Inr (array_slice0 k
                (array_sort (\<lambda>a b. score b - score a)
                  (filter (\<lambda>item. score item \<ge> threshold) scores))))"

text \<open>Example inputs of the ranker.\<close>

definition tie_chunks :: "embedded list" where
  "tie_chunks = [\<lparr>embedding = [1, 0]\<rparr>, \<lparr>embedding = [0, 1]\<rparr>, \<lparr>embedding = [2, 0]\<rparr>]"

section \<open>JavaScript strings\<close>

text \<open>
  A JavaScript string is a sequence of UTF-16 code units; \<open>length\<close>, indexing,
  \<open>substring\<close> and \<open>indexOf\<close> count code units.
\<close>

type_synonym code_unit = "16 word"
type_synonym jsstring = "code_unit list"

definition js :: "string \<Rightarrow> jsstring" where
  "js s = map (\<lambda>c. of_nat (of_char c)) s"

abbreviation SP :: code_unit where
  "SP \<equiv> 0x20"

text \<open>The characters matched by \<open>\s\<close> in a regular expression and removed by
  \<open>String.prototype.trim\<close>: ECMAScript's WhiteSpace and LineTerminator code points.\<close>

definition isWhiteSpace :: "code_unit \<Rightarrow> bool" where
  "isWhiteSpace c \<longleftrightarrow>
     c = 0x9 \<or> c = 0xA \<or> c = 0xB \<or> c = 0xC \<or> c = 0xD \<or> c = 0x20 \<or> c = 0xA0 \<or>
     c = 0x1680 \<or> (0x2000 \<le> c \<and> c \<le> 0x200A) \<or> c = 0x2028 \<or> c = 0x2029 \<or>
     c = 0x202F \<or> c = 0x205F \<or> c = 0x3000 \<or> c = 0xFEFF"

definition trim :: "jsstring \<Rightarrow> jsstring" where
  "trim s = rev (dropWhile isWhiteSpace (rev (dropWhile isWhiteSpace s)))"

text \<open>\<open>s.replace(/\s+/g, ' ')\<close>: every maximal run of white space becomes one space.
  The flag says whether the previous code unit was white space.\<close>

fun collapse_from :: "bool \<Rightarrow> jsstring \<Rightarrow> jsstring" where
  "collapse_from inWhitespace [] = []"
| "collapse_from inWhitespace (c # cs) =
     (if isWhiteSpace c
      then (if inWhitespace then collapse_from True cs else SP # collapse_from True cs)
      else c # collapse_from False cs)"

definition collapseWhitespace :: "jsstring \<Rightarrow> jsstring" where
  "collapseWhitespace s = collapse_from False s"

text \<open>\<open>s.split(/\s+/)\<close>: the pieces between maximal runs of white space; a leading or
  trailing run gives an empty first or last piece, the empty string gives one empty piece.\<close>

fun split_from :: "bool \<Rightarrow> jsstring \<Rightarrow> jsstring \<Rightarrow> jsstring list" where
  "split_from inWhitespace cur [] = [cur]"
| "split_from inWhitespace cur (c # cs) =
     (if isWhiteSpace c
      then (if inWhitespace then split_from True cur cs else cur # split_from True [] cs)
      else split_from False (cur @ [c]) cs)"

definition splitWhitespace :: "jsstring \<Rightarrow> jsstring list" where
  "splitWhitespace s = split_from False [] s"

text \<open>\<open>Array.prototype.join(' ')\<close> on an array of strings.\<close>

fun join_sp :: "jsstring list \<Rightarrow> jsstring" where
  "join_sp [] = []"
| "join_sp [x] = x"
| "join_sp (x # y # ys) = x @ SP # join_sp (y # ys)"

text \<open>\<open>haystack.indexOf(needle)\<close>: the first position at which \<open>needle\<close> occurs, or
  \<open>-1\<close>.\<close>

fun indexOf_from :: "nat \<Rightarrow> jsstring \<Rightarrow> jsstring \<Rightarrow> int" where
  "indexOf_from i [] needle = (if needle = [] then int i else - 1)"
| "indexOf_from i (c # cs) needle =
     (if take (length needle) (c # cs) = needle then int i
      else indexOf_from (i + 1) cs needle)"

definition indexOf :: "jsstring \<Rightarrow> jsstring \<Rightarrow> int" where
  "indexOf haystack needle = indexOf_from 0 haystack needle"

text \<open>Case-insensitive matching of an ASCII pattern without the \<open>u\<close> flag only folds
  the ASCII letters.\<close>

definition asciiLower :: "code_unit \<Rightarrow> code_unit" where
  "asciiLower c = (if 0x41 \<le> c \<and> c \<le> 0x5A then c + 0x20 else c)"

text \<open>A non-empty string with no white space at either end.\<close>

definition edge_clean :: "jsstring \<Rightarrow> bool" where
  "edge_clean s \<longleftrightarrow> s \<noteq> [] \<and> \<not> isWhiteSpace (hd s) \<and> \<not> isWhiteSpace (last s)"

section \<open>The document\<close>

text \<open>
  The part of the DOM the code reads. An element carries its tag name, the attributes the
  code asks for, and the two computed style properties it tests. A document is the tree
  below its root element; only element and text nodes are kept. A text node met by a
  tree walker is identified by its path from the root (child indices); it carries its
  character data and the chain of its ancestor elements, nearest first.
\<close>

record element =
  tagName :: jsstring
  role :: "jsstring option"
  className :: jsstring
  elem_id :: jsstring
  display :: jsstring
  visibility :: jsstring

datatype dnode = TextN jsstring | ElemN element "dnode list"

record tnode =
  path :: "nat list"
  textContent :: jsstring
  parents :: "element list"

definition parentElement :: "tnode \<Rightarrow> element option" where
  "parentElement n = (case parents n of [] \<Rightarrow> None | p # _ \<Rightarrow> Some p)"

text \<open>A position in the tree: the ancestors (nearest first), the path, the node.\<close>

type_synonym place = "element list \<times> nat list \<times> dnode"

text \<open>The text nodes below a node, in document order: what a \<open>TreeWalker\<close> with
  \<open>NodeFilter.SHOW_TEXT\<close> offers to its filter.\<close>

fun textNodesOf :: "element list \<Rightarrow> nat list \<Rightarrow> dnode \<Rightarrow> tnode list"
  and textNodesOfList :: "element list \<Rightarrow> nat list \<Rightarrow> nat \<Rightarrow> dnode list \<Rightarrow> tnode list" where
  "textNodesOf anc p (TextN s) = [\<lparr>path = p, textContent = s, parents = anc\<rparr>]"
| "textNodesOf anc p (ElemN e kids) = textNodesOfList (e # anc) p 0 kids"
| "textNodesOfList anc p i [] = []"
| "textNodesOfList anc p i (k # ks) =
     textNodesOf anc (p @ [i]) k @ textNodesOfList anc p (i + 1) ks"

text \<open>The walker never returns its root: a text node as root offers nothing.\<close>

definition walkText :: "place \<Rightarrow> tnode list" where
  "walkText pl =
     (case pl of (anc, p, TextN s) \<Rightarrow> [] | (anc, p, ElemN e kids) \<Rightarrow> textNodesOf anc p (ElemN e kids))"

text \<open>\<open>querySelector\<close>: the first element in document order that matches.\<close>

fun queryFirst :: "(element \<Rightarrow> bool) \<Rightarrow> element list \<Rightarrow> nat list \<Rightarrow> dnode \<Rightarrow> place option"
  and queryFirstList ::
    "(element \<Rightarrow> bool) \<Rightarrow> element list \<Rightarrow> nat list \<Rightarrow> nat \<Rightarrow> dnode list \<Rightarrow> place option" where
  "queryFirst m anc p (TextN s) = None"
| "queryFirst m anc p (ElemN e kids) =
     (if m e then Some (anc, p, ElemN e kids) else queryFirstList m (e # anc) p 0 kids)"
| "queryFirstList m anc p i [] = None"
| "queryFirstList m anc p i (k # ks) =
     (case queryFirst m anc (p @ [i]) k of
        Some r \<Rightarrow> Some r
      | None \<Rightarrow> queryFirstList m anc p (i + 1) ks)"

text \<open>\<open>document.body\<close>: the first \<open>body\<close> or \<open>frameset\<close> child of the \<open>html\<close> root
  element, or null.\<close>

fun firstBody :: "element \<Rightarrow> nat \<Rightarrow> dnode list \<Rightarrow> place option" where
  "firstBody h i [] = None"
| "firstBody h i (TextN s # ks) = firstBody h (i + 1) ks"
| "firstBody h i (ElemN e kids # ks) =
     (if tagName e = js ''BODY'' \<or> tagName e = js ''FRAMESET''
      then Some ([h], [i], ElemN e kids)
      else firstBody h (i + 1) ks)"

definition documentBody :: "dnode \<Rightarrow> place option" where
  "documentBody doc =
     (case doc of
        TextN s \<Rightarrow> None
      | ElemN h kids \<Rightarrow> (if tagName h = js ''HTML'' then firstBody h 0 kids else None))"

text \<open>\<open>document.head\<close>: the first \<open>head\<close> child of the \<open>html\<close> root element, or null.\<close>

fun firstHead :: "dnode list \<Rightarrow> element option" where
  "firstHead [] = None"
| "firstHead (TextN s # ks) = firstHead ks"
| "firstHead (ElemN e kids # ks) = (if tagName e = js ''HEAD'' then Some e else firstHead ks)"

definition documentHead :: "dnode \<Rightarrow> element option" where
  "documentHead doc =
     (case doc of
        TextN s \<Rightarrow> None
      | ElemN h kids \<Rightarrow> (if tagName h = js ''HTML'' then firstHead kids else None))"

text \<open>A \<open>Range\<close> with both boundary points in text nodes, as the node and offset given to
  \<open>setStart\<close> and to \<open>setEnd\<close>.\<close>

record drange =
  startContainer :: tnode
  startOffset :: nat
  endContainer :: tnode
  endOffset :: nat

section \<open>Chunker: \<open>chunkText\<close> of \<open>src/content/text-chunker.ts\<close>\<close>

text \<open>The interface \<open>TextNode\<close> (a fragment) and the interface \<open>TextChunk\<close> without its
  optional embedding. Field names carry a prefix where the source's name is taken.\<close>

record textNode =
  frag_text :: jsstring
  frag_node :: tnode
  frag_startOffset :: int

text \<open>A chunk id \<open>chunk-${Date.now()}-${chunkIdCounter++}\<close> is kept as its two numbers.\<close>

record chunkIdent =
  stamp :: int
  serial :: nat

record textChunk =
  chunk_id :: chunkIdent
  chunk_text :: jsstring
  chunk_startOffset :: int
  chunk_endOffset :: int

text \<open>\<open>generateChunkId\<close> reads the clock and increments the module's counter; \<open>now n\<close>
  is the clock reading at the call that finds the counter at \<open>n\<close>.\<close>

definition generateChunkId :: "(nat \<Rightarrow> int) \<Rightarrow> nat \<Rightarrow> chunkIdent \<times> nat" where
  "generateChunkId now chunkIdCounter =
     (\<lparr>stamp = now chunkIdCounter, serial = chunkIdCounter\<rparr>, chunkIdCounter + 1)"

text \<open>The \<open>for\<close> loop of \<open>chunkText\<close> over the state
  \<open>(chunks, currentChunkText, currentChunkStart, lastOffset, chunkIdCounter)\<close>.\<close>

type_synonym chunk_state = "textChunk list \<times> jsstring \<times> int \<times> int \<times> nat"

fun chunk_loop :: "(nat \<Rightarrow> int) \<Rightarrow> real \<Rightarrow> textNode list \<Rightarrow> chunk_state \<Rightarrow> chunk_state" where
  "chunk_loop now targetSize [] st = st"
| "chunk_loop now targetSize (f # fs) (chunks, currentChunkText, currentChunkStart, lastOffset, counter) =
     (case (if length currentChunkText > 0 \<and>
               real (length currentChunkText) + real (length (frag_text f)) > targetSize
            then (case generateChunkId now counter of
                    (i, counter') \<Rightarrow>
                      (chunks @ [\<lparr>chunk_id = i, chunk_text = trim currentChunkText,
                                  chunk_startOffset = currentChunkStart,
                                  chunk_endOffset = lastOffset\<rparr>],
                       [], frag_startOffset f, counter'))
            else (chunks, currentChunkText, currentChunkStart, counter)) of
        (chunks1, text1, start1, counter1) \<Rightarrow>
          chunk_loop now targetSize fs
            (chunks1,
             text1 @ (if length text1 > 0 then [SP] else []) @ frag_text f,
             (if length text1 = 0 then frag_startOffset f else start1),
             frag_startOffset f + int (length (frag_text f)),
             counter1))"

definition chunkText ::
  "(nat \<Rightarrow> int) \<Rightarrow> nat \<Rightarrow> textNode list \<Rightarrow> real \<Rightarrow> textChunk list \<times> nat" where
  "chunkText now counter textNodes targetSize =
     (case chunk_loop now targetSize textNodes ([], [], 0, 0, counter) of
        (chunks, currentChunkText, currentChunkStart, lastOffset, counter1) \<Rightarrow>
          (if length (trim currentChunkText) > 0
           then (case generateChunkId now counter1 of
                   (i, counter2) \<Rightarrow>
                     (chunks @ [\<lparr>chunk_id = i, chunk_text = trim currentChunkText,
                                 chunk_startOffset = currentChunkStart,
                                 chunk_endOffset = lastOffset\<rparr>],
                      counter2))
           else (chunks, counter1)))"

text \<open>Example inputs of the chunker.\<close>

definition fixed_clock :: "nat \<Rightarrow> int" where
  "fixed_clock n = 1700000000000"

definition para :: element where
  "para = \<lparr>tagName = js ''P'', role = None, className = [], elem_id = [],
           display = js ''block'', visibility = js ''visible''\<rparr>"

definition frag :: "string \<Rightarrow> int \<Rightarrow> textNode" where
  "frag s off = \<lparr>frag_text = js s,
                 frag_node = \<lparr>path = [], textContent = js s, parents = [para]\<rparr>,
                 frag_startOffset = off\<rparr>"

definition three_frags :: "textNode list" where
  "three_frags = [frag ''Hello'' 0, frag ''World'' 6, frag ''again and'' 12]"

section \<open>Extractor: \<open>extractPageText\<close> of \<open>src/content/text-chunker.ts\<close>\<close>

definition SKIP_TAGS :: "jsstring list" where
  "SKIP_TAGS = map js
     [''SCRIPT'', ''STYLE'', ''NOSCRIPT'', ''IFRAME'', ''OBJECT'', ''EMBED'',
      ''SVG'', ''CANVAS'', ''VIDEO'', ''AUDIO'', ''MAP'', ''TEMPLATE'',
      ''NAV'', ''HEADER'', ''FOOTER'', ''ASIDE'']"

definition SKIP_PATTERNS :: "jsstring list" where
  "SKIP_PATTERNS = map js
     [''nav'', ''menu'', ''sidebar'', ''footer'', ''header'',
      ''breadcrumb'', ''advertisement'', ''social'', ''share'',
      ''comment'', ''related'', ''recommend'', ''popular'',
      ''widget'', ''banner'', ''promo'', ''sponsor'']"

definition SKIP_ROLES :: "jsstring list" where
  "SKIP_ROLES = map js [''navigation'', ''banner'', ''contentinfo'', ''complementary'']"

text \<open>\<open>/pattern/i.test(s)\<close> for a lower-case ASCII word: the word occurs in \<open>s\<close> up to
  the case of ASCII letters.\<close>

definition patternTest :: "jsstring \<Rightarrow> jsstring \<Rightarrow> bool" where
  "patternTest pattern s \<longleftrightarrow> indexOf (map asciiLower s) pattern \<noteq> - 1"

text \<open>The \<open>while\<close> loop of \<open>shouldSkipElement\<close>. The element under test and the chain of
  its \<open>parentElement\<close>s are the list; \<open>current\<close> is null when the list is empty.\<close>

fun shouldSkip_from :: "nat \<Rightarrow> element list \<Rightarrow> bool" where
  "shouldSkip_from depth [] = False"
| "shouldSkip_from depth (current # ancestors) =
     (if depth < 5 then
        (if tagName current \<in> set SKIP_TAGS then True
         else if (case role current of
                    None \<Rightarrow> False
                  | Some r \<Rightarrow> r \<noteq> [] \<and> r \<in> set SKIP_ROLES) then True
         else if list_ex (\<lambda>pattern. patternTest pattern (className current @ [SP] @ elem_id current))
                   SKIP_PATTERNS then True
         else shouldSkip_from (depth + 1) ancestors)
      else False)"

definition shouldSkipElement :: "element list \<Rightarrow> bool" where
  "shouldSkipElement chain = shouldSkip_from 0 chain"

text \<open>The \<open>acceptNode\<close> callback of \<open>extractPageText\<close>: \<open>True\<close> is \<open>FILTER_ACCEPT\<close>.\<close>

definition extractAccept :: "tnode \<Rightarrow> bool" where
  "extractAccept n =
     (case parents n of
        [] \<Rightarrow> False
      | parent # _ \<Rightarrow>
          if display parent = js ''none'' \<or> visibility parent = js ''hidden'' then False
          else if shouldSkipElement (parents n) then False
          else (let t = trim (textContent n)
                in if t = [] then False
                   else if length t < 3 then False
                   else True))"

text \<open>The tokens of a \<open>class\<close> attribute, separated by ASCII white space.\<close>

definition isAsciiSpace :: "code_unit \<Rightarrow> bool" where
  "isAsciiSpace c \<longleftrightarrow> c = 0x9 \<or> c = 0xA \<or> c = 0xC \<or> c = 0xD \<or> c = 0x20"

fun tokens_from :: "jsstring \<Rightarrow> jsstring \<Rightarrow> jsstring list" where
  "tokens_from cur [] = (if cur = [] then [] else [cur])"
| "tokens_from cur (c # cs) =
     (if isAsciiSpace c then (if cur = [] then tokens_from [] cs else cur # tokens_from [] cs)
      else tokens_from (cur @ [c]) cs)"

definition hasClass :: "string \<Rightarrow> element \<Rightarrow> bool" where
  "hasClass c e \<longleftrightarrow> js c \<in> set (tokens_from [] (className e))"

text \<open>The selector list
  \<open>main, article, [role="main"], .content, .post, .entry, #content, #main, .mw-body-content\<close>
  on an HTML element.\<close>

definition mainContentSelector :: "element \<Rightarrow> bool" where
  "mainContentSelector e \<longleftrightarrow>
     tagName e = js ''MAIN'' \<or> tagName e = js ''ARTICLE'' \<or> role e = Some (js ''main'') \<or>
     hasClass ''content'' e \<or> hasClass ''post'' e \<or> hasClass ''entry'' e \<or>
     elem_id e = js ''content'' \<or> elem_id e = js ''main'' \<or> hasClass ''mw-body-content'' e"

text \<open>\<open>mainContent || document.body\<close>.\<close>

definition searchRoot :: "dnode \<Rightarrow> place option" where
  "searchRoot doc =
     (case queryFirst mainContentSelector [] [] doc of
        Some mainContent \<Rightarrow> Some mainContent
      | None \<Rightarrow> documentBody doc)"

text \<open>The \<open>while\<close> loop over the walker's nodes.\<close>

fun extract_loop :: "int \<Rightarrow> tnode list \<Rightarrow> textNode list" where
  "extract_loop currentOffset [] = []"
| "extract_loop currentOffset (n # ns) =
     (let t = trim (textContent n)
      in if t \<noteq> []
         then \<lparr>frag_text = t, frag_node = n, frag_startOffset = currentOffset\<rparr>
                # extract_loop (currentOffset + int (length t) + 1) ns
         else extract_loop currentOffset ns)"

text \<open>\<open>createTreeWalker\<close> throws a \<open>TypeError\<close> on a null root.\<close>

definition extractPageText :: "dnode \<Rightarrow> error + textNode list" where
  "extractPageText doc =
     (case searchRoot doc of
        None \<Rightarrow> Inl TypeError
      | Some walkerRoot \<Rightarrow> Inr (extract_loop 0 (filter extractAccept (walkText walkerRoot))))"

section \<open>Highlight mapper: the location algorithm (the highlighter module, in \<open>src/content/summary-panel.ts\<close>)\<close>

text \<open>
  What the platform supplies: whether the CSS Custom Highlight API exists,
  \<open>String.prototype.toLowerCase\<close>, whether \<open>Range.surroundContents\<close> on a range inside one
  text node returns without throwing, and, for a range across text nodes, the per-node
  ranges that the fallback manages to wrap (\<open>getTextNodesInRange\<close> and the wrapping loop,
  which mutate the live tree).
\<close>

record platform =
  supportsHighlightAPI :: bool
  toLowerCase :: "jsstring \<Rightarrow> jsstring"
  surroundContents :: "dnode \<Rightarrow> drange \<Rightarrow> bool"
  wrapAcross :: "dnode \<Rightarrow> drange \<Rightarrow> drange list"

definition normalizeText :: "platform \<Rightarrow> jsstring \<Rightarrow> jsstring" where
  "normalizeText pf t = trim (collapseWhitespace (toLowerCase pf t))"

definition getFirstWords :: "jsstring \<Rightarrow> nat \<Rightarrow> jsstring" where
  "getFirstWords t count = join_sp (take count (splitWhitespace t))"

text \<open>The \<open>for\<close> loop of \<open>mapNormalizedToActual\<close>, at index \<open>i\<close> with the rest of the text
  from \<open>i\<close> on; \<open>len\<close> is \<open>text.length\<close>.\<close>

fun map_loop :: "nat \<Rightarrow> int \<Rightarrow> nat \<Rightarrow> int \<Rightarrow> bool \<Rightarrow> jsstring \<Rightarrow> nat" where
  "map_loop len normalizedPos i normIndex inWhitespace [] = len"
| "map_loop len normalizedPos i normIndex inWhitespace (c # cs) =
     (if normIndex \<ge> normalizedPos then i
      else if isWhiteSpace c
           then (if \<not> inWhitespace
                 then map_loop len normalizedPos (i + 1) (normIndex + 1) True cs
                 else map_loop len normalizedPos (i + 1) normIndex inWhitespace cs)
           else map_loop len normalizedPos (i + 1) (normIndex + 1) False cs)"

definition mapNormalizedToActual :: "jsstring \<Rightarrow> int \<Rightarrow> nat" where
  "mapNormalizedToActual t normalizedPos = map_loop (length t) normalizedPos 0 0 False t"

text \<open>The \<open>acceptNode\<close> callback of \<open>findRangeForText\<close>.\<close>

definition locateAccept :: "tnode \<Rightarrow> bool" where
  "locateAccept n =
     (case parents n of
        [] \<Rightarrow> False
      | parent # _ \<Rightarrow>
          if display parent = js ''none'' \<or> visibility parent = js ''hidden'' then False
          else if tagName parent \<in> set (map js [''SCRIPT'', ''STYLE'', ''NOSCRIPT'', ''TEMPLATE''])
          then False
          else True)"

record locNode =
  loc_node :: tnode
  loc_start :: nat
  loc_text :: jsstring

text \<open>The first \<open>while\<close> loop of \<open>findRangeForText\<close>: the array \<open>textNodes\<close> and the
  string \<open>fullText\<close>.\<close>

fun collect_loop :: "jsstring \<Rightarrow> tnode list \<Rightarrow> locNode list \<times> jsstring" where
  "collect_loop fullText [] = ([], fullText)"
| "collect_loop fullText (n # ns) =
     (let nodeText = textContent n
      in if length (trim nodeText) = 0 then collect_loop fullText ns
         else (case collect_loop (fullText @ nodeText @ [SP]) ns of
                 (rest, full) \<Rightarrow>
                   (\<lparr>loc_node = n, loc_start = length fullText, loc_text = nodeText\<rparr> # rest,
                    full)))"

text \<open>The \<open>for\<close> loop that maps the match back: the state is the start boundary found so
  far and \<open>normalizedPos\<close>; the result is the start and the end boundary.\<close>

fun locate_loop ::
  "platform \<Rightarrow> int \<Rightarrow> int \<Rightarrow> (tnode \<times> nat) option \<Rightarrow> int \<Rightarrow> locNode list \<Rightarrow>
     (tnode \<times> nat) option \<times> (tnode \<times> nat) option" where
  "locate_loop pf matchIndex matchEnd start normalizedPos [] = (start, None)"
| "locate_loop pf matchIndex matchEnd start normalizedPos (tn # tns) =
     (let nodeStartNorm = normalizedPos;
          nodeEndNorm = normalizedPos + int (length (normalizeText pf (loc_text tn)));
          start1 = (if start = None \<and> matchIndex \<ge> nodeStartNorm \<and> matchIndex < nodeEndNorm
                    then Some (loc_node tn,
                               mapNormalizedToActual (loc_text tn) (matchIndex - nodeStartNorm))
                    else start)
      in if start1 \<noteq> None \<and> matchEnd > nodeStartNorm \<and> matchEnd \<le> nodeEndNorm
         then (start1,
               Some (loc_node tn, mapNormalizedToActual (loc_text tn) (matchEnd - nodeStartNorm)))
         else if start1 \<noteq> None \<and> matchEnd = nodeEndNorm
         then (start1, Some (loc_node tn, length (loc_text tn)))
         else locate_loop pf matchIndex matchEnd start1 (nodeEndNorm + 1) tns)"

text \<open>\<open>range.setStart\<close> and \<open>range.setEnd\<close> throw when the offset exceeds the length of
  the node; the \<open>catch\<close> turns that into null.\<close>

definition createRange :: "tnode \<times> nat \<Rightarrow> tnode \<times> nat \<Rightarrow> drange option" where
  "createRange s e =
     (case (s, e) of
        ((startNode, startOff), (endNode, endOff)) \<Rightarrow>
          if startOff > length (textContent startNode) \<or> endOff > length (textContent endNode)
          then None
          else Some \<lparr>startContainer = startNode, startOffset = startOff,
                      endContainer = endNode, endOffset = endOff\<rparr>)"

text \<open>The tree walker over \<open>document.body\<close> and the first loop.\<close>

definition collectTextNodes :: "dnode \<Rightarrow> error + locNode list \<times> jsstring" where
  "collectTextNodes doc =
     (case documentBody doc of
        None \<Rightarrow> Inl TypeError
      | Some body \<Rightarrow> Inr (collect_loop [] (filter locateAccept (walkText body))))"

definition findRangeForText :: "platform \<Rightarrow> dnode \<Rightarrow> jsstring \<Rightarrow> error + drange option" where
  "findRangeForText pf doc searchText =
     (case collectTextNodes doc of
        Inl e \<Rightarrow> Inl e
      | Inr (textNodes, fullText) \<Rightarrow>
          (let normalizedFull = normalizeText pf fullText;
               matchIndex = indexOf normalizedFull searchText
           in if matchIndex = - 1 then Inr None
              else
                (let matchEnd = matchIndex + int (length searchText)
                 in case locate_loop pf matchIndex matchEnd None 0 textNodes of
                      (Some (startNode, startOff), Some (endNode, endOff)) \<Rightarrow>
                        Inr (createRange
                               (startNode, min startOff (length (textContent startNode)))
                               (endNode, min endOff (length (textContent endNode))))
                    | _ \<Rightarrow> Inr None)))"

text \<open>The strategy loop of \<open>findTextRanges\<close>.\<close>

fun try_strategies :: "platform \<Rightarrow> dnode \<Rightarrow> jsstring list \<Rightarrow> error + drange list" where
  "try_strategies pf doc [] = Inr []"
| "try_strategies pf doc (searchStr # rest) =
     (if searchStr = [] \<or> length searchStr < 3 then try_strategies pf doc rest
      else (case findRangeForText pf doc searchStr of
              Inl e \<Rightarrow> Inl e
            | Inr (Some foundRange) \<Rightarrow> Inr [foundRange]
            | Inr None \<Rightarrow> try_strategies pf doc rest))"

definition searchStrategies :: "jsstring \<Rightarrow> jsstring list" where
  "searchStrategies normalizedSearch =
     [normalizedSearch,
      take (min 100 (length normalizedSearch)) normalizedSearch,
      take (min 60 (length normalizedSearch)) normalizedSearch,
      take (min 40 (length normalizedSearch)) normalizedSearch,
      getFirstWords normalizedSearch 8,
      getFirstWords normalizedSearch 5,
      getFirstWords normalizedSearch 3]"

definition findTextRanges :: "platform \<Rightarrow> dnode \<Rightarrow> jsstring \<Rightarrow> error + drange list" where
  "findTextRanges pf doc searchText =
     (let normalizedSearch = normalizeText pf searchText
      in if length normalizedSearch < 3 then Inr []
         else try_strategies pf doc (searchStrategies normalizedSearch))"

section \<open>Highlight mapper: the registry (the highlighter module, in \<open>src/content/summary-panel.ts\<close>)\<close>

text \<open>
  The module's state: the \<open>Map\<close> \<open>highlightedChunks\<close> (an association list in insertion
  order with distinct keys, as a \<open>Map\<close> iterates), \<open>activeHighlightId\<close>, and the two
  entries of \<open>CSS.highlights\<close> the module writes: the ranges registered under
  \<open>semantic-find-highlight\<close> and under \<open>semantic-find-highlight-active\<close>.
\<close>

record hstate =
  highlightedChunks :: "(jsstring \<times> drange list) list"
  activeHighlightId :: "jsstring option"
  cssHighlight :: "drange list option"
  cssActiveHighlight :: "drange list option"

definition emptyRegistry :: hstate where
  "emptyRegistry = \<lparr>highlightedChunks = [], activeHighlightId = None,
                     cssHighlight = None, cssActiveHighlight = None\<rparr>"

fun mapSet :: "'k \<Rightarrow> 'v \<Rightarrow> ('k \<times> 'v) list \<Rightarrow> ('k \<times> 'v) list" where
  "mapSet k v [] = [(k, v)]"
| "mapSet k v ((k', v') # m) = (if k' = k then (k, v) # m else (k', v') # mapSet k v m)"

definition mapDelete :: "'k \<Rightarrow> ('k \<times> 'v) list \<Rightarrow> ('k \<times> 'v) list" where
  "mapDelete k m = filter (\<lambda>entry. fst entry \<noteq> k) m"

definition mapGet :: "('k \<times> 'v) list \<Rightarrow> 'k \<Rightarrow> 'v option" where
  "mapGet m k = map_of m k"

definition updateHighlights :: "platform \<Rightarrow> hstate \<Rightarrow> hstate" where
  "updateHighlights pf st =
     (if \<not> supportsHighlightAPI pf then st
      else
        (let allRanges =
               concat (map snd (filter (\<lambda>entry. Some (fst entry) \<noteq> activeHighlightId st)
                                  (highlightedChunks st)));
             activeRanges =
               concat (map snd (filter (\<lambda>entry. Some (fst entry) = activeHighlightId st)
                                  (highlightedChunks st)))
         in st\<lparr>cssHighlight := (if length allRanges > 0 then Some allRanges else None),
                cssActiveHighlight :=
                  (if length activeRanges > 0 then Some activeRanges else None)\<rparr>))"

definition removeHighlight :: "platform \<Rightarrow> hstate \<Rightarrow> jsstring \<Rightarrow> hstate" where
  "removeHighlight pf st chunkId =
     updateHighlights pf
       (st\<lparr>highlightedChunks := mapDelete chunkId (highlightedChunks st),
           activeHighlightId :=
             (if activeHighlightId st = Some chunkId then None else activeHighlightId st)\<rparr>)"

text \<open>Without the API, \<open>clearAllHighlights\<close> unwraps the marker spans in the live tree and
  leaves \<open>CSS.highlights\<close> alone.\<close>

definition clearAllHighlights :: "platform \<Rightarrow> hstate \<Rightarrow> hstate" where
  "clearAllHighlights pf st =
     (if supportsHighlightAPI pf
      then \<lparr>highlightedChunks = [], activeHighlightId = None,
            cssHighlight = None, cssActiveHighlight = None\<rparr>
      else st\<lparr>highlightedChunks := [], activeHighlightId := None\<rparr>)"

text \<open>\<open>setActiveHighlight\<close> returns the new state and the range it scrolls to, if any.\<close>

definition setActiveHighlight :: "platform \<Rightarrow> hstate \<Rightarrow> jsstring \<Rightarrow> hstate \<times> drange option" where
  "setActiveHighlight pf st chunkId =
     (let st1 = updateHighlights pf (st\<lparr>activeHighlightId := Some chunkId\<rparr>)
      in (st1,
          (case mapGet (highlightedChunks st1) chunkId of
             None \<Rightarrow> None
           | Some ranges \<Rightarrow> (case ranges of [] \<Rightarrow> None | r # _ \<Rightarrow> Some r))))"

definition getHighlightCount :: "hstate \<Rightarrow> nat" where
  "getHighlightCount st = length (highlightedChunks st)"

text \<open>\<open>injectHighlightStyles\<close> returns early when the style element exists; otherwise it
  appends to \<open>document.head\<close>, a \<open>TypeError\<close> when that is null. The style element is a
  child of \<open>head\<close> and is no part of the state kept here.\<close>

definition injectHighlightStyles :: "dnode \<Rightarrow> error + unit" where
  "injectHighlightStyles doc =
     (if queryFirst (\<lambda>e. elem_id e = js ''semantic-find-highlight-styles'') [] [] doc \<noteq> None
      then Inr ()
      else (case documentHead doc of None \<Rightarrow> Inl TypeError | Some h \<Rightarrow> Inr ()))"

text \<open>\<open>highlightTextFallback\<close>: every exception inside its \<open>try\<close> gives \<open>false\<close>;
  \<open>findRangeForText\<close> is called before the \<open>try\<close>.\<close>

definition highlightTextFallback ::
  "platform \<Rightarrow> dnode \<Rightarrow> hstate \<Rightarrow> jsstring \<Rightarrow> jsstring \<Rightarrow> (error + bool) \<times> hstate" where
  "highlightTextFallback pf doc st chunkId searchText =
     (case findRangeForText pf doc (normalizeText pf searchText) of
        Inl e \<Rightarrow> (Inl e, st)
      | Inr None \<Rightarrow> (Inr False, st)
      | Inr (Some found) \<Rightarrow>
          if startContainer found = endContainer found
          then (if surroundContents pf doc found
                then (Inr True,
                      st\<lparr>highlightedChunks := mapSet chunkId [found] (highlightedChunks st)\<rparr>)
                else (Inr False, st))
          else (let ranges = wrapAcross pf doc found
                in if length ranges > 0
                   then (Inr True,
                         st\<lparr>highlightedChunks := mapSet chunkId ranges (highlightedChunks st)\<rparr>)
                   else (Inr False, st)))"

definition highlightText ::
  "platform \<Rightarrow> dnode \<Rightarrow> hstate \<Rightarrow> jsstring \<Rightarrow> jsstring \<Rightarrow> (error + bool) \<times> hstate" where
  "highlightText pf doc st chunkId searchText =
     (let st1 = removeHighlight pf st chunkId
      in if \<not> supportsHighlightAPI pf
         then highlightTextFallback pf doc st1 chunkId searchText
         else (case injectHighlightStyles doc of
                 Inl e \<Rightarrow> (Inl e, st1)
               | Inr u \<Rightarrow>
                   (case findTextRanges pf doc searchText of
                      Inl e \<Rightarrow> (Inl e, st1)
                    | Inr ranges \<Rightarrow>
                        if length ranges = 0 then (Inr False, st1)
                        else (Inr True,
                              updateHighlights pf
                                (st1\<lparr>highlightedChunks :=
                                       mapSet chunkId ranges (highlightedChunks st1)\<rparr>)))))"

text \<open>A sequence of calls of the exported operations; \<open>highlightText\<close> comes with the
  document it finds at the time of the call.\<close>

datatype call =
    HighlightText dnode jsstring jsstring
  | RemoveHighlight jsstring
  | SetActiveHighlight jsstring
  | ClearAllHighlights

fun step :: "platform \<Rightarrow> hstate \<Rightarrow> call \<Rightarrow> hstate" where
  "step pf st (HighlightText doc chunkId searchText) = snd (highlightText pf doc st chunkId searchText)"
| "step pf st (RemoveHighlight chunkId) = removeHighlight pf st chunkId"
| "step pf st (SetActiveHighlight chunkId) = fst (setActiveHighlight pf st chunkId)"
| "step pf st ClearAllHighlights = clearAllHighlights pf st"

fun run :: "platform \<Rightarrow> hstate \<Rightarrow> call list \<Rightarrow> hstate" where
  "run pf st [] = st"
| "run pf st (c # cs) = run pf (step pf st c) cs"

text \<open>Every \<open>setActiveHighlight\<close> of the sequence names an id that has an entry when it is
  called.\<close>

fun activatesKnown :: "platform \<Rightarrow> hstate \<Rightarrow> call list \<Rightarrow> bool" where
  "activatesKnown pf st [] = True"
| "activatesKnown pf st (c # cs) =
     ((case c of
         SetActiveHighlight chunkId \<Rightarrow> mapGet (highlightedChunks st) chunkId \<noteq> None
       | _ \<Rightarrow> True) \<and>
      activatesKnown pf (step pf st c) cs)"

text \<open>The registry invariant of the specification: an active id has a range entry.\<close>

definition activeHasEntry :: "hstate \<Rightarrow> bool" where
  "activeHasEntry st =
     (case activeHighlightId st of
        None \<Rightarrow> True
      | Some i \<Rightarrow> mapGet (highlightedChunks st) i \<noteq> None)"

text \<open>Example platforms and documents.\<close>

definition api_platform :: platform where
  "api_platform = \<lparr>supportsHighlightAPI = True, toLowerCase = map asciiLower,
                    surroundContents = (\<lambda>doc r. True), wrapAcross = (\<lambda>doc r. [])\<rparr>"

definition fallback_platform :: platform where
  "fallback_platform = \<lparr>supportsHighlightAPI = False, toLowerCase = map asciiLower,
                         surroundContents = (\<lambda>doc r. True), wrapAcross = (\<lambda>doc r. [])\<rparr>"

definition plain :: "string \<Rightarrow> element" where
  "plain tag = \<lparr>tagName = js tag, role = None, className = [], elem_id = [],
               display = js ''block'', visibility = js ''visible''\<rparr>"

definition page :: "dnode list \<Rightarrow> dnode" where
  "page bodyKids = ElemN (plain ''HTML'') [ElemN (plain ''HEAD'') [], ElemN (plain ''BODY'') bodyKids]"

definition hello_doc :: dnode where
  "hello_doc = page [ElemN (plain ''P'') [TextN (js ''Hello world'')]]"

definition nav_doc :: dnode where
  "nav_doc = page [ElemN (plain ''NAV'') [TextN (js ''Site links'')]]"

definition nav_text :: tnode where
  "nav_text = \<lparr>path = [1, 0, 0], textContent = js ''Site links'',
               parents = [plain ''NAV'', plain ''BODY'', plain ''HTML'']\<rparr>"

definition hello_text :: tnode where
  "hello_text = \<lparr>path = [1, 0, 0], textContent = js ''Hello world'',
                 parents = [plain ''P'', plain ''BODY'', plain ''HTML'']\<rparr>"

definition hello_range :: drange where
  "hello_range = \<lparr>startContainer = hello_text, startOffset = 0,
                  endContainer = hello_text, endOffset = 11\<rparr>"

definition chunk1_active :: hstate where
  "chunk1_active =
     run api_platform emptyRegistry
       [HighlightText hello_doc (js ''chunk-1'') (js ''Hello world''),
        SetActiveHighlight (js ''chunk-1'')]"

section \<open>Properties of the ranker\<close>

lemma cosine_loop_zero_left:
  "length a = length b \<Longrightarrow> \<forall>x\<in>set a. x = 0 \<Longrightarrow>
     \<exists>nb. cosine_loop a b (d, na, nb0) = (d, na, nb)"
  by (induction a b "(d, na, nb0)" arbitrary: nb0 rule: cosine_loop.induct) auto

lemma cosine_loop_zero_right:
  "length a = length b \<Longrightarrow> \<forall>y\<in>set b. y = 0 \<Longrightarrow>
     \<exists>na. cosine_loop a b (d, na0, nb) = (d, na, nb)"
  by (induction a b "(d, na0, nb)" arbitrary: na0 rule: cosine_loop.induct) auto

lemma cosineSimilarity_error_iff:
  "cosineSimilarity a b = Inl e \<longleftrightarrow> (length a \<noteq> length b \<and> e = LengthMismatch)"
  by (auto simp: cosineSimilarity_def Let_def split: prod.splits)

text \<open>
  Claim C9. \<open>cosineSimilarity(a, b)\<close> throws the length-mismatch error exactly when the two
  lengths differ; for vectors of equal length, if all components of one of them are zero
  (its norm is 0) the result is exactly 0: the division is never reached.
\<close>

theorem cosineSimilarity_contract:
  "(cosineSimilarity a b = Inl LengthMismatch \<longleftrightarrow> length a \<noteq> length b) \<and>
   (length a = length b \<longrightarrow> ((\<forall>x\<in>set a. x = 0) \<or> (\<forall>y\<in>set b. y = 0)) \<longrightarrow>
      cosineSimilarity a b = Inr 0)"
proof (intro conjI impI)
  show "cosineSimilarity a b = Inl LengthMismatch \<longleftrightarrow> length a \<noteq> length b"
    by (simp add: cosineSimilarity_error_iff)
next
  assume len: "length a = length b"
    and z: "(\<forall>x\<in>set a. x = 0) \<or> (\<forall>y\<in>set b. y = 0)"
  from z show "cosineSimilarity a b = Inr 0"
  proof
    assume "\<forall>x\<in>set a. x = 0"
    from cosine_loop_zero_left [OF len this, of 0 0 0]
    obtain nb where "cosine_loop a b (0, 0, 0) = (0, 0, nb)" by blast
    with len show ?thesis by (simp add: cosineSimilarity_def)
  next
    assume "\<forall>y\<in>set b. y = 0"
    from cosine_loop_zero_right [OF len this, of 0 0 0]
    obtain na where "cosine_loop a b (0, 0, 0) = (0, na, 0)" by blast
    with len show ?thesis by (simp add: cosineSimilarity_def)
  qed
qed

theorem cosineSimilarity_contract_witness:
  "cosineSimilarity [1, 2, 3] [1, 2] = Inl LengthMismatch \<and>
   cosineSimilarity [1, 2, 3] [0, 0, 0] = Inr 0 \<and>
   cosineSimilarity [0, 0] [4, 5] = Inr 0"
  using cosineSimilarity_contract [of "[1, 2, 3]" "[1, 2]"]
        cosineSimilarity_contract [of "[1, 2, 3]" "[0, 0, 0]"]
        cosineSimilarity_contract [of "[0, 0]" "[4, 5]"]
  by simp

lemma set_insort_cmp: "set (insort_cmp cmp x xs) = insert x (set xs)"
  by (induction xs) auto

lemma set_array_sort: "set (array_sort cmp xs) = set xs"
  by (induction xs) (auto simp: array_sort_def set_insort_cmp)

lemma length_insort_cmp: "length (insort_cmp cmp x xs) = Suc (length xs)"
  by (induction xs) auto

lemma length_array_sort: "length (array_sort cmp xs) = length xs"
  by (induction xs) (auto simp: array_sort_def length_insort_cmp)

lemma sorted_insort_desc:
  "sorted_wrt (\<lambda>a b. score b \<le> score a) xs \<Longrightarrow>
   sorted_wrt (\<lambda>a b. score b \<le> score a) (insort_cmp (\<lambda>a b. score b - score a) x xs)"
  by (induction xs) (auto simp: set_insort_cmp)

lemma sorted_array_sort_desc:
  "sorted_wrt (\<lambda>a b. score b \<le> score a) (array_sort (\<lambda>a b. score b - score a) xs)"
proof (induction xs)
  case Nil
  show ?case by (simp add: array_sort_def)
next
  case (Cons x xs)
  then show ?case using sorted_insort_desc [of "array_sort (\<lambda>a b. score b - score a) xs" x]
    by (simp add: array_sort_def)
qed

lemma filter_insort_same:
  "sorted_wrt (\<lambda>a b. score b \<le> score a) xs \<Longrightarrow> score x = s \<Longrightarrow>
   filter (\<lambda>y. score y = s) (insort_cmp (\<lambda>a b. score b - score a) x xs)
     = x # filter (\<lambda>y. score y = s) xs"
  by (induction xs) auto

lemma filter_insort_other:
  "score x \<noteq> s \<Longrightarrow>
   filter (\<lambda>y. score y = s) (insort_cmp (\<lambda>a b. score b - score a) x xs)
     = filter (\<lambda>y. score y = s) xs"
  by (induction xs) auto

lemma array_sort_stable:
  "filter (\<lambda>y. score y = s) (array_sort (\<lambda>a b. score b - score a) xs)
     = filter (\<lambda>y. score y = s) xs"
proof (induction xs)
  case Nil
  show ?case by (simp add: array_sort_def)
next
  case (Cons x xs)
  have srt: "sorted_wrt (\<lambda>a b. score b \<le> score a) (array_sort (\<lambda>a b. score b - score a) xs)"
    by (rule sorted_array_sort_desc)
  show ?case
  proof (cases "score x = s")
    case True
    with Cons filter_insort_same [OF srt True] show ?thesis by (simp add: array_sort_def)
  next
    case False
    with Cons filter_insort_other [OF False] show ?thesis by (simp add: array_sort_def)
  qed
qed


lemma score_all_index:
  "score_all q i cs = Inr scs \<Longrightarrow> map index scs = [i ..< i + length cs]"
proof (induction cs arbitrary: i scs)
  case Nil
  then show ?case by simp
next
  case (Cons c cs)
  from Cons.prems obtain s rest where rest: "score_all q (i + 1) cs = Inr rest"
    and scs: "scs = \<lparr>index = i, score = s\<rparr> # rest"
    by (auto split: sum.splits)
  from Cons.IH [OF rest] have "map index rest = [Suc i ..< Suc i + length cs]" by simp
  moreover have "[i ..< i + length (c # cs)] = i # [Suc i ..< Suc i + length cs]"
    using upt_conv_Cons [of i "i + length (c # cs)"] by simp
  ultimately show ?case using scs by simp
qed

lemma score_all_defined:
  "\<forall>c\<in>set cs. length (embedding c) = length q \<Longrightarrow> \<exists>scs. score_all q i cs = Inr scs"
proof (induction cs arbitrary: i)
  case Nil
  show ?case by simp
next
  case (Cons c cs)
  from Cons.prems have "length q = length (embedding c)" by simp
  then obtain s where s: "cosineSimilarity q (embedding c) = Inr s"
    by (cases "cosineSimilarity q (embedding c)") (auto simp: cosineSimilarity_error_iff)
  from Cons obtain rest where "score_all q (i + 1) cs = Inr rest" by fastforce
  with s show ?case by simp
qed

lemma score_all_sorted_index:
  assumes "score_all q i cs = Inr scs"
  shows "sorted_wrt (\<lambda>a b. index a < index b) scs"
proof -
  have "sorted_wrt (<) (map index scs)"
    using score_all_index [OF assms] by simp
  then show ?thesis by (simp add: sorted_wrt_map)
qed

lemma sorted_wrt_filter_nth:
  "sorted_wrt R (filter Q L) \<Longrightarrow> i < j \<Longrightarrow> j < length L \<Longrightarrow> Q (L ! i) \<Longrightarrow> Q (L ! j)
     \<Longrightarrow> R (L ! i) (L ! j)"
proof (induction L arbitrary: i j)
  case Nil
  then show ?case by simp
next
  case (Cons x L)
  show ?case
  proof (cases i)
    case 0
    with Cons.prems obtain j' where j: "j = Suc j'" by (cases j) auto
    with Cons.prems 0 have "L ! j' \<in> set (filter Q L)" by auto
    with Cons.prems 0 j show ?thesis by auto
  next
    case (Suc i')
    with Cons.prems obtain j' where j: "j = Suc j'" by (cases j) auto
    from Cons.prems have "sorted_wrt R (filter Q L)" by (auto split: if_splits)
    from Cons.IH [OF this, of i' j'] Cons.prems Suc j show ?thesis by simp
  qed
qed

lemma length_array_slice0: "length (array_slice0 k xs) \<le> length xs"
  by (simp add: array_slice0_def Let_def)

lemma array_slice0_take: "\<exists>m. array_slice0 k xs = take m xs"
  by (auto simp: array_slice0_def Let_def)

text \<open>
  Claim C6. Two entries of the output of \<open>findTopKSimilar\<close> with equal scores appear in
  ascending order of their original chunk indices, for every query, chunk list, \<open>k\<close> and
  threshold. The sort is stable, and the scores are produced in index order.
\<close>

theorem findTopKSimilar_ties_by_index:
  assumes "findTopKSimilar queryEmbedding chunks k threshold = Inr out"
    and "i < j" and "j < length out" and "score (out ! i) = score (out ! j)"
  shows "index (out ! i) < index (out ! j)"
proof -
  from assms(1) obtain scs where scs: "score_all queryEmbedding 0 chunks = Inr scs"
    and out: "out = array_slice0 k (array_sort (\<lambda>a b. score b - score a)
                  (filter (\<lambda>item. score item \<ge> threshold) scs))"
    by (auto simp: findTopKSimilar_def split: sum.splits)
  define S where "S = array_sort (\<lambda>a b. score b - score a)
                  (filter (\<lambda>item. score item \<ge> threshold) scs)"
  obtain m where m: "out = take m S" using out array_slice0_take [of k S] by (auto simp: S_def)
  from m assms(2,3) have nth: "out ! i = S ! i" "out ! j = S ! j" and jS: "j < length S"
    by auto
  let ?s = "score (S ! j)"
  have "filter (\<lambda>y. score y = ?s) S
          = filter (\<lambda>y. score y = ?s) (filter (\<lambda>item. score item \<ge> threshold) scs)"
    unfolding S_def by (rule array_sort_stable)
  moreover have "sorted_wrt (\<lambda>a b. index a < index b)
          (filter (\<lambda>y. score y = ?s) (filter (\<lambda>item. score item \<ge> threshold) scs))"
    using score_all_sorted_index [OF scs] by (intro sorted_wrt_filter)
  ultimately have "sorted_wrt (\<lambda>a b. index a < index b) (filter (\<lambda>y. score y = ?s) S)"
    by simp
  from sorted_wrt_filter_nth [OF this assms(2) jS] assms(4) nth
  show ?thesis by simp
qed

lemma tie_chunks_result:
  "findTopKSimilar [1, 0] tie_chunks 5 0 =
     Inr [\<lparr>index = 0, score = 1\<rparr>, \<lparr>index = 2, score = 1\<rparr>, \<lparr>index = 1, score = 0\<rparr>]"
  by (simp add: findTopKSimilar_def tie_chunks_def cosineSimilarity_def array_sort_def
      array_slice0_def toInteger_def)

theorem findTopKSimilar_ties_by_index_witness:
  "findTopKSimilar [1, 0] tie_chunks 5 0 =
     Inr [\<lparr>index = 0, score = 1\<rparr>, \<lparr>index = 2, score = 1\<rparr>, \<lparr>index = 1, score = 0\<rparr>] \<and>
   score ([\<lparr>index = 0, score = 1\<rparr>, \<lparr>index = 2, score = 1\<rparr>, \<lparr>index = 1, score = 0\<rparr>] ! 0) =
   score ([\<lparr>index = 0, score = 1\<rparr>, \<lparr>index = 2, score = 1\<rparr>, \<lparr>index = 1, score = 0\<rparr>] ! 1) \<and>
   index ([\<lparr>index = 0, score = 1\<rparr>, \<lparr>index = 2, score = 1\<rparr>, \<lparr>index = 1, score = 0\<rparr>] ! 0) <
   index ([\<lparr>index = 0, score = 1\<rparr>, \<lparr>index = 2, score = 1\<rparr>, \<lparr>index = 1, score = 0\<rparr>] ! 1)"
  using findTopKSimilar_ties_by_index [OF tie_chunks_result, of 0 1] tie_chunks_result
  by simp

text \<open>
  Claim C8. For every query, every chunk list whose embeddings all have the query's length,
  every count \<open>k\<close> (a number \<open>k \<ge> 0\<close>) and every threshold, \<open>findTopKSimilar\<close> returns a
  list (no error) in which every score is at least the threshold, the scores are
  non-increasing, and there are at most \<open>k\<close> entries; an empty chunk list and an empty
  post-filter set give the empty list.
\<close>

theorem findTopKSimilar_contract:
  assumes k: "0 \<le> k"
    and len: "\<forall>c\<in>set chunks. length (embedding c) = length queryEmbedding"
  shows "\<exists>out scores.
           findTopKSimilar queryEmbedding chunks k threshold = Inr out \<and>
           score_all queryEmbedding 0 chunks = Inr scores \<and>
           (\<forall>e\<in>set out. threshold \<le> score e) \<and>
           sorted_wrt (\<lambda>a b. score b \<le> score a) out \<and>
           real (length out) \<le> k \<and>
           (chunks = [] \<longrightarrow> out = []) \<and>
           (filter (\<lambda>item. score item \<ge> threshold) scores = [] \<longrightarrow> out = [])"
proof -
  from score_all_defined [OF len] obtain scores
    where scores: "score_all queryEmbedding 0 chunks = Inr scores" by blast
  define F where "F = filter (\<lambda>item. score item \<ge> threshold) scores"
  define S where "S = array_sort (\<lambda>a b. score b - score a) F"
  define out where "out = array_slice0 k S"
  have res: "findTopKSimilar queryEmbedding chunks k threshold = Inr out"
    by (simp add: findTopKSimilar_def scores out_def S_def F_def)
  obtain m where m: "out = take m S"
    using array_slice0_take [of k S] by (auto simp: out_def)
  have "set out \<subseteq> set S" using m by (simp add: set_take_subset)
  also have "set S = set F" by (simp add: S_def set_array_sort)
  finally have thr: "\<forall>e\<in>set out. threshold \<le> score e" by (auto simp: F_def)
  have "sorted_wrt (\<lambda>a b. score b \<le> score a) S"
    unfolding S_def by (rule sorted_array_sort_desc)
  then have srt: "sorted_wrt (\<lambda>a b. score b \<le> score a) out"
    unfolding m by (rule sorted_wrt_take)
  have "int (length out) \<le> \<lfloor>k\<rfloor>"
    using k by (simp add: out_def array_slice0_def toInteger_def Let_def)
  then have "real (length out) \<le> of_int \<lfloor>k\<rfloor>" by linarith
  then have cnt: "real (length out) \<le> k" by linarith
  have e1: "chunks = [] \<longrightarrow> out = []"
    using scores by (auto simp: out_def S_def F_def array_sort_def array_slice0_def Let_def)
  have e2: "F = [] \<longrightarrow> out = []"
    by (simp add: out_def S_def array_sort_def array_slice0_def Let_def)
  from res scores thr srt cnt e1 e2 show ?thesis unfolding F_def by blast
qed

theorem findTopKSimilar_contract_witness:
  "(0::real) \<le> 2 \<and>
   list_all (\<lambda>c. length (embedding c) = length [1, 0 :: real]) tie_chunks \<and>
   findTopKSimilar [1, 0] tie_chunks 2 (1 / 2) =
     Inr [\<lparr>index = 0, score = 1\<rparr>, \<lparr>index = 2, score = 1\<rparr>]"
proof -
  have k: "(0::real) \<le> 2" by simp
  have len: "\<forall>c\<in>set tie_chunks. length (embedding c) = length [1, 0 :: real]"
    by (simp add: tie_chunks_def)
  have "findTopKSimilar [1, 0] tie_chunks 2 (1 / 2) =
     Inr [\<lparr>index = 0, score = 1\<rparr>, \<lparr>index = 2, score = 1\<rparr>]"
    using findTopKSimilar_contract [OF k len, of "1 / 2"]
    by (simp add: findTopKSimilar_def tie_chunks_def cosineSimilarity_def array_sort_def
        array_slice0_def toInteger_def)
  with k len show ?thesis by (simp add: list_all_iff)
qed

section \<open>Properties of the chunker\<close>

lemma trim_edge_clean: "edge_clean s \<Longrightarrow> trim s = s"
proof -
  assume c: "edge_clean s"
  then obtain x xs where s: "s = x # xs" and x: "\<not> isWhiteSpace x"
    by (cases s) (auto simp: edge_clean_def)
  then have d1: "dropWhile isWhiteSpace s = s" by simp
  from c have "rev s \<noteq> []" "\<not> isWhiteSpace (hd (rev s))"
    by (auto simp: edge_clean_def hd_rev)
  then have "dropWhile isWhiteSpace (rev s) = rev s" by (cases "rev s") auto
  with d1 show ?thesis by (simp add: trim_def)
qed

lemma length_trim_le: "length (trim s) \<le> length (dropWhile isWhiteSpace s)"
  using length_dropWhile_le [of isWhiteSpace "rev (dropWhile isWhiteSpace s)"]
  by (simp add: trim_def)

lemma edge_clean_of_trim:
  assumes "s \<noteq> []" and "trim s = s"
  shows "edge_clean s"
proof -
  have h: "\<not> isWhiteSpace (hd s)"
  proof
    assume w: "isWhiteSpace (hd s)"
    from assms(1) obtain x xs where s: "s = x # xs" by (cases s) auto
    with w have "length (dropWhile isWhiteSpace s) \<le> length xs"
      by (simp add: length_dropWhile_le)
    with length_trim_le [of s] s assms(2) show False by simp
  qed
  then have d1: "dropWhile isWhiteSpace s = s" using assms(1) by (cases s) auto
  have l: "\<not> isWhiteSpace (last s)"
  proof
    assume w: "isWhiteSpace (last s)"
    from assms(1) have "rev s = rev (butlast s @ [last s])" by simp
    then have r: "rev s = last s # rev (butlast s)" by (simp only: rev_append rev.simps append.simps)
    have "dropWhile isWhiteSpace (rev s) = dropWhile isWhiteSpace (rev (butlast s))"
      by (subst r) (simp add: w)
    then have "length (dropWhile isWhiteSpace (rev s)) \<le> length (butlast s)"
      by (metis length_dropWhile_le length_rev)
    moreover have "length (butlast s) < length s" using assms(1) by (cases s) auto
    ultimately have "length (dropWhile isWhiteSpace (rev s)) < length s" by linarith
    with d1 have "length (trim s) < length s"
      by (simp add: trim_def)
    with assms(2) show False by simp
  qed
  from assms(1) h l show ?thesis by (simp add: edge_clean_def)
qed

lemma join_sp_append:
  "xs \<noteq> [] \<Longrightarrow> ys \<noteq> [] \<Longrightarrow> join_sp (xs @ ys) = join_sp xs @ SP # join_sp ys"
proof (induction xs rule: join_sp.induct)
  case 1
  then show ?case by simp
next
  case (2 x)
  then show ?case by (cases ys) auto
next
  case (3 x y ys')
  then show ?case by simp
qed

lemma join_sp_Nil_iff:
  "\<forall>x\<in>set xs. x \<noteq> [] \<Longrightarrow> join_sp xs = [] \<longleftrightarrow> xs = []"
  by (induction xs rule: join_sp.induct) auto

lemma hd_join_sp: "xs \<noteq> [] \<Longrightarrow> hd xs \<noteq> [] \<Longrightarrow> hd (join_sp xs) = hd (hd xs)"
  by (induction xs rule: join_sp.induct) auto

lemma last_join_sp_aux:
  "xs \<noteq> [] \<Longrightarrow> last xs \<noteq> [] \<Longrightarrow> join_sp xs \<noteq> [] \<and> last (join_sp xs) = last (last xs)"
  by (induction xs rule: join_sp.induct) auto

lemma last_join_sp: "xs \<noteq> [] \<Longrightarrow> last xs \<noteq> [] \<Longrightarrow> last (join_sp xs) = last (last xs)"
  by (simp add: last_join_sp_aux)

lemma edge_clean_join_sp:
  assumes "xs \<noteq> []" and "\<forall>x\<in>set xs. edge_clean x"
  shows "edge_clean (join_sp xs)"
proof -
  from assms have ne: "\<forall>x\<in>set xs. x \<noteq> []" by (auto simp: edge_clean_def)
  with assms(1) have j: "join_sp xs \<noteq> []" by (simp add: join_sp_Nil_iff)
  from assms have "hd xs \<in> set xs" "last xs \<in> set xs" by auto
  with assms(2) have "edge_clean (hd xs)" "edge_clean (last xs)" by auto
  with assms(1) j show ?thesis
    by (simp add: edge_clean_def hd_join_sp last_join_sp)
qed

lemma join_sp_concat:
  "[] \<notin> set xss \<Longrightarrow> join_sp (map join_sp xss) = join_sp (concat xss)"
proof (induction xss)
  case Nil
  show ?case by simp
next
  case (Cons g rest)
  show ?case
  proof (cases "rest = []")
    case True
    then show ?thesis by simp
  next
    case False
    then obtain r rs where rest: "rest = r # rs" by (cases rest) auto
    from Cons.prems have g: "g \<noteq> []" and nr: "[] \<notin> set rest" by auto
    from rest nr have cr: "concat rest \<noteq> []" by auto
    have "join_sp (map join_sp (g # rest)) = join_sp g @ SP # join_sp (map join_sp rest)"
      using rest by simp
    also have "\<dots> = join_sp g @ SP # join_sp (concat rest)"
      using Cons.IH [OF nr] by simp
    also have "\<dots> = join_sp (g @ concat rest)"
      using join_sp_append [OF g cr] by simp
    finally show ?thesis by simp
  qed
qed

lemma chunk_loop_groups:
  assumes "\<forall>f\<in>set fs. edge_clean (frag_text f)"
    and "\<forall>f\<in>set g. edge_clean (frag_text f)"
    and "cur = join_sp (map frag_text g)"
    and "chunk_loop now ts fs (chunks, cur, cs, lo, c) = (chunks', cur', cs', lo', c')"
  shows "\<exists>gs g'. concat gs @ g' = g @ fs \<and> [] \<notin> set gs \<and>
           (\<forall>f\<in>set g'. edge_clean (frag_text f)) \<and>
           cur' = join_sp (map frag_text g') \<and>
           map chunk_text chunks' =
             map chunk_text chunks @ map (\<lambda>g. join_sp (map frag_text g)) gs \<and>
           (g @ fs \<noteq> [] \<longrightarrow> g' \<noteq> [])"
  using assms
proof (induction fs arbitrary: g chunks cur cs lo c)
  case Nil
  then have "chunks' = chunks" "cur' = cur" by auto
  with Nil show ?case by (intro exI [of _ "[]"] exI [of _ g]) simp
next
  case (Cons f fs)
  have fs_clean: "\<forall>f\<in>set fs. edge_clean (frag_text f)" using Cons.prems(1) by simp
  have f_clean: "edge_clean (frag_text f)" using Cons.prems(1) by simp
  have cur_nil: "cur = [] \<longleftrightarrow> g = []"
    using Cons.prems(2,3) by (auto simp: join_sp_Nil_iff edge_clean_def)
  show ?case
  proof (cases "length cur > 0 \<and> real (length cur) + real (length (frag_text f)) > ts")
    case True
    then have gne: "g \<noteq> []" using cur_nil by auto
    have tr: "trim cur = cur"
      using edge_clean_join_sp [of "map frag_text g"] gne Cons.prems(2,3)
      by (auto intro: trim_edge_clean)
    let ?ch = "chunks @ [\<lparr>chunk_id = fst (generateChunkId now c), chunk_text = trim cur,
                 chunk_startOffset = cs, chunk_endOffset = lo\<rparr>]"
    from True Cons.prems(4)
    have step: "chunk_loop now ts fs (?ch, frag_text f, frag_startOffset f,
          frag_startOffset f + int (length (frag_text f)), snd (generateChunkId now c))
        = (chunks', cur', cs', lo', c')"
      by (simp add: case_prod_beta)
    have "\<forall>h\<in>set [f]. edge_clean (frag_text h)" using f_clean by simp
    moreover have "frag_text f = join_sp (map frag_text [f])" by simp
    ultimately obtain gs g' where
      a: "concat gs @ g' = [f] @ fs" and b: "[] \<notin> set gs"
      and c': "\<forall>f\<in>set g'. edge_clean (frag_text f)"
      and d: "cur' = join_sp (map frag_text g')"
      and e: "map chunk_text chunks' = map chunk_text ?ch @ map (\<lambda>g. join_sp (map frag_text g)) gs"
      and f': "[f] @ fs \<noteq> [] \<longrightarrow> g' \<noteq> []"
      using Cons.IH [OF fs_clean _ _ step] by blast
    show ?thesis
    proof (intro exI [of _ "g # gs"] exI [of _ g'] conjI)
      show "concat (g # gs) @ g' = g @ f # fs" using a by simp
      show "[] \<notin> set (g # gs)" using b gne by auto
      show "\<forall>f\<in>set g'. edge_clean (frag_text f)" by (rule c')
      show "cur' = join_sp (map frag_text g')" by (rule d)
      show "map chunk_text chunks' =
          map chunk_text chunks @ map (\<lambda>g. join_sp (map frag_text g)) (g # gs)"
        using e tr Cons.prems(3) by simp
      show "g @ f # fs \<noteq> [] \<longrightarrow> g' \<noteq> []" using f' by simp
    qed
  next
    case False
    let ?cur2 = "cur @ (if length cur > 0 then [SP] else []) @ frag_text f"
    from False have cond:
      "(cur \<noteq> [] \<and> ts < real (length cur) + real (length (frag_text f))) = False"
      by simp
    from Cons.prems(4)
    have step: "chunk_loop now ts fs (chunks, ?cur2,
          (if length cur = 0 then frag_startOffset f else cs),
          frag_startOffset f + int (length (frag_text f)), c)
        = (chunks', cur', cs', lo', c')"
      by (simp add: cond)
    have j: "?cur2 = join_sp (map frag_text (g @ [f]))"
    proof (cases "g = []")
      case True
      with cur_nil show ?thesis by simp
    next
      case False
      with cur_nil have "cur \<noteq> []" by simp
      with False Cons.prems(3) show ?thesis
        using join_sp_append [of "map frag_text g" "[frag_text f]"] by simp
    qed
    have cl: "\<forall>h\<in>set (g @ [f]). edge_clean (frag_text h)"
      using Cons.prems(2) f_clean by simp
    obtain gs g' where
      a: "concat gs @ g' = (g @ [f]) @ fs" and b: "[] \<notin> set gs"
      and c': "\<forall>f\<in>set g'. edge_clean (frag_text f)"
      and d: "cur' = join_sp (map frag_text g')"
      and e: "map chunk_text chunks' = map chunk_text chunks @ map (\<lambda>g. join_sp (map frag_text g)) gs"
      and f': "(g @ [f]) @ fs \<noteq> [] \<longrightarrow> g' \<noteq> []"
      using Cons.IH [OF fs_clean cl j step] by blast
    show ?thesis
      using a b c' d e f' by (intro exI [of _ gs] exI [of _ g']) simp
  qed
qed

text \<open>
  Claim C7. For a non-empty fragment list whose texts are non-empty and have no leading or
  trailing white space, and a positive target size: the output chunks are the space-joins
  of consecutive non-empty groups of fragments that partition the input in order (every
  fragment lies whole in exactly one chunk), and the space-join of the chunk texts is the
  space-join of all fragment texts.
\<close>

theorem chunkText_preserves_fragments:
  assumes ne: "textNodes \<noteq> []"
    and clean: "\<forall>f\<in>set textNodes. frag_text f \<noteq> [] \<and> trim (frag_text f) = frag_text f"
    and pos: "0 < targetSize"
  shows "\<exists>groups. concat groups = textNodes \<and> [] \<notin> set groups \<and>
           map chunk_text (fst (chunkText now counter textNodes targetSize)) =
             map (\<lambda>g. join_sp (map frag_text g)) groups \<and>
           join_sp (map chunk_text (fst (chunkText now counter textNodes targetSize))) =
             join_sp (map frag_text textNodes)"
proof -
  from clean have cl: "\<forall>f\<in>set textNodes. edge_clean (frag_text f)"
    by (auto intro: edge_clean_of_trim)
  obtain chunks' cur' cs' lo' c' where
    loop: "chunk_loop now targetSize textNodes ([], [], 0, 0, counter) = (chunks', cur', cs', lo', c')"
    by (cases "chunk_loop now targetSize textNodes ([], [], 0, 0, counter)") auto
  have h1: "\<forall>f\<in>set ([] :: textNode list). edge_clean (frag_text f)" by simp
  have h2: "([] :: jsstring) = join_sp (map frag_text ([] :: textNode list))" by simp
  obtain gs g' where
    a: "concat gs @ g' = textNodes" and b: "[] \<notin> set gs"
    and c: "\<forall>f\<in>set g'. edge_clean (frag_text f)"
    and d: "cur' = join_sp (map frag_text g')"
    and e: "map chunk_text chunks' = map (\<lambda>g. join_sp (map frag_text g)) gs"
    and f: "textNodes \<noteq> [] \<longrightarrow> g' \<noteq> []"
    using chunk_loop_groups [OF cl h1 h2 loop] by auto
  from f ne have g': "g' \<noteq> []" by simp
  with c d have ec: "edge_clean cur'"
    using edge_clean_join_sp [of "map frag_text g'"] by simp
  then have tr: "trim cur' = cur'" and cne: "cur' \<noteq> []"
    by (auto intro: trim_edge_clean simp: edge_clean_def)
  let ?groups = "gs @ [g']"
  have "map chunk_text (fst (chunkText now counter textNodes targetSize)) =
      map chunk_text chunks' @ [cur']"
    using tr cne by (simp add: chunkText_def loop case_prod_beta)
  then have texts: "map chunk_text (fst (chunkText now counter textNodes targetSize)) =
      map (\<lambda>g. join_sp (map frag_text g)) ?groups"
    by (simp add: d e)
  have nog: "[] \<notin> set ?groups" using b g' by auto
  have cc: "concat ?groups = textNodes" using a by simp
  have "join_sp (map (\<lambda>g. join_sp (map frag_text g)) ?groups) =
        join_sp (map join_sp (map (map frag_text) ?groups))"
    by (simp add: comp_def)
  also have "\<dots> = join_sp (concat (map (map frag_text) ?groups))"
    using nog by (intro join_sp_concat) auto
  also have "\<dots> = join_sp (map frag_text (concat ?groups))"
    by (simp only: map_concat)
  finally have j: "join_sp (map (\<lambda>g. join_sp (map frag_text g)) ?groups) =
      join_sp (map frag_text (concat ?groups))" .
  have "join_sp (map chunk_text (fst (chunkText now counter textNodes targetSize))) =
      join_sp (map frag_text textNodes)"
    by (simp only: texts j cc)
  with cc nog texts show ?thesis by blast
qed

lemma three_frags_chunks:
  "map chunk_text (fst (chunkText fixed_clock 0 three_frags 12)) =
     [js ''Hello World'', js ''again and'']"
  by (simp add: chunkText_def three_frags_def frag_def js_def generateChunkId_def trim_def
      isWhiteSpace_def)

theorem chunkText_preserves_fragments_witness:
  "three_frags \<noteq> [] \<and>
   list_all (\<lambda>f. frag_text f \<noteq> [] \<and> trim (frag_text f) = frag_text f) three_frags \<and>
   (0 :: real) < 12 \<and>
   join_sp (map chunk_text (fst (chunkText fixed_clock 0 three_frags 12))) =
     join_sp (map frag_text three_frags) \<and>
   map chunk_text (fst (chunkText fixed_clock 0 three_frags 12)) =
     [js ''Hello World'', js ''again and'']"
proof -
  have h1: "three_frags \<noteq> []" by (simp add: three_frags_def)
  have h2: "\<forall>f\<in>set three_frags. frag_text f \<noteq> [] \<and> trim (frag_text f) = frag_text f"
    by (simp add: three_frags_def frag_def js_def trim_def isWhiteSpace_def)
  have h3: "(0 :: real) < 12" by simp
  from chunkText_preserves_fragments [OF h1 h2 h3, of fixed_clock 0]
  have "join_sp (map chunk_text (fst (chunkText fixed_clock 0 three_frags 12))) =
     join_sp (map frag_text three_frags)" by blast
  with h1 h2 h3 three_frags_chunks show ?thesis by (simp add: list_all_iff)
qed

lemma chunk_loop_nonpositive:
  assumes "ts \<le> 0"
    and "\<forall>f\<in>set fs. edge_clean (frag_text f)"
    and "cur = [] \<or> edge_clean cur"
    and "chunk_loop now ts fs (chunks, cur, cs, lo, c) = (chunks', cur', cs', lo', c')"
  shows "map chunk_text chunks' @ (if cur' = [] then [] else [cur']) =
           map chunk_text chunks @ (if cur = [] then [] else [cur]) @ map frag_text fs \<and>
         (cur' = [] \<or> edge_clean cur')"
  using assms
proof (induction fs arbitrary: chunks cur cs lo c)
  case Nil
  then show ?case by auto
next
  case (Cons f fs)
  have f_clean: "edge_clean (frag_text f)" using Cons.prems(2) by simp
  then have fne: "frag_text f \<noteq> []" by (simp add: edge_clean_def)
  have fs_clean: "\<forall>f\<in>set fs. edge_clean (frag_text f)" using Cons.prems(2) by simp
  show ?case
  proof (cases "cur = []")
    case True
    with Cons.prems(4)
    have step: "chunk_loop now ts fs (chunks, frag_text f, frag_startOffset f,
          frag_startOffset f + int (length (frag_text f)), c) = (chunks', cur', cs', lo', c')"
      by simp
    from Cons.IH [OF Cons.prems(1) fs_clean _ step] f_clean fne True
    show ?thesis by simp
  next
    case False
    with Cons.prems(3) have tr: "trim cur = cur" by (auto intro: trim_edge_clean)
    from False Cons.prems(1) have cond:
      "(cur \<noteq> [] \<and> ts < real (length cur) + real (length (frag_text f))) = True"
      by (cases cur) auto
    let ?ch = "chunks @ [\<lparr>chunk_id = fst (generateChunkId now c), chunk_text = trim cur,
                 chunk_startOffset = cs, chunk_endOffset = lo\<rparr>]"
    from Cons.prems(4)
    have step: "chunk_loop now ts fs (?ch, frag_text f, frag_startOffset f,
          frag_startOffset f + int (length (frag_text f)), snd (generateChunkId now c))
        = (chunks', cur', cs', lo', c')"
      by (simp add: cond case_prod_beta)
    from Cons.IH [OF Cons.prems(1) fs_clean _ step] f_clean fne False tr
    show ?thesis by simp
  qed
qed

text \<open>
  Claim C4, as stated, fails: no branch of \<open>chunkText\<close> tests the sign of
  \<open>targetSize\<close>, and the single fragment \<open>abc\<close> with target size 0 gives one chunk.
\<close>

theorem chunkText_zero_size_counterexample:
  "fst (chunkText fixed_clock 0 [frag ''abc'' 0] 0) =
     [\<lparr>chunk_id = \<lparr>stamp = 1700000000000, serial = 0\<rparr>, chunk_text = js ''abc'',
       chunk_startOffset = 0, chunk_endOffset = 3\<rparr>]"
  by (simp add: chunkText_def frag_def js_def generateChunkId_def trim_def isWhiteSpace_def
      fixed_clock_def)

text \<open>
  Claim C4, amended: \<open>chunkText\<close> never raises; for the empty fragment list it returns the
  empty list for every \<open>targetSize\<close>; for \<open>targetSize \<le> 0\<close> and fragments whose texts are
  non-empty and have no leading or trailing white space it returns one chunk per fragment,
  holding that fragment's text.
\<close>

theorem chunkText_degenerate:
  "fst (chunkText now counter [] targetSize) = [] \<and>
   (targetSize \<le> 0 \<longrightarrow>
      (\<forall>f\<in>set textNodes. frag_text f \<noteq> [] \<and> trim (frag_text f) = frag_text f) \<longrightarrow>
      map chunk_text (fst (chunkText now counter textNodes targetSize)) = map frag_text textNodes)"
proof (intro conjI impI)
  show "fst (chunkText now counter [] targetSize) = []"
    by (simp add: chunkText_def trim_def)
next
  assume ts: "targetSize \<le> 0"
    and clean: "\<forall>f\<in>set textNodes. frag_text f \<noteq> [] \<and> trim (frag_text f) = frag_text f"
  from clean have cl: "\<forall>f\<in>set textNodes. edge_clean (frag_text f)"
    by (auto intro: edge_clean_of_trim)
  obtain chunks' cur' cs' lo' c' where
    loop: "chunk_loop now targetSize textNodes ([], [], 0, 0, counter) = (chunks', cur', cs', lo', c')"
    by (cases "chunk_loop now targetSize textNodes ([], [], 0, 0, counter)") auto
  from chunk_loop_nonpositive [OF ts cl _ loop]
  have r: "map chunk_text chunks' @ (if cur' = [] then [] else [cur']) = map frag_text textNodes"
    and c: "cur' = [] \<or> edge_clean cur'" by simp_all
  show "map chunk_text (fst (chunkText now counter textNodes targetSize)) = map frag_text textNodes"
  proof (cases "cur' = []")
    case True
    with loop r show ?thesis by (simp add: chunkText_def trim_def)
  next
    case False
    with c have "trim cur' = cur'" by (auto intro: trim_edge_clean)
    with False loop r show ?thesis by (simp add: chunkText_def case_prod_beta)
  qed
qed

theorem chunkText_degenerate_witness:
  "fst (chunkText fixed_clock 0 [] 0) = [] \<and>
   (0 :: real) \<le> 0 \<and>
   list_all (\<lambda>f. frag_text f \<noteq> [] \<and> trim (frag_text f) = frag_text f) three_frags \<and>
   map chunk_text (fst (chunkText fixed_clock 0 three_frags 0)) = map frag_text three_frags"
proof -
  have h2: "\<forall>f\<in>set three_frags. frag_text f \<noteq> [] \<and> trim (frag_text f) = frag_text f"
    by (simp add: three_frags_def frag_def js_def trim_def isWhiteSpace_def)
  from chunkText_degenerate [of fixed_clock 0 0 three_frags] h2
  show ?thesis by (simp add: list_all_iff)
qed

section \<open>Properties of the location algorithm\<close>

lemmas str_eval = Let_def js_def trim_def isWhiteSpace_def asciiLower_def collapseWhitespace_def
  splitWhitespace_def indexOf_def

lemmas dom_eval = page_def plain_def documentBody_def documentHead_def walkText_def

lemma map_loop_le:
  "i + length rest = len \<Longrightarrow> map_loop len normalizedPos i normIndex inWhitespace rest \<le> len"
  by (induction rest arbitrary: i normIndex inWhitespace) auto

lemma mapNormalizedToActual_le: "mapNormalizedToActual t normalizedPos \<le> length t"
  by (simp add: mapNormalizedToActual_def map_loop_le)

lemma collect_loop_text:
  "\<forall>tn\<in>set (fst (collect_loop full ns)). loc_text tn = textContent (loc_node tn)"
proof (induction ns arbitrary: full)
  case Nil
  show ?case by simp
next
  case (Cons n ns)
  show ?case
  proof (cases "trim (textContent n) = []")
    case True
    with Cons.IH [of full] show ?thesis by simp
  next
    case False
    with Cons.IH [of "full @ textContent n @ [SP]"] show ?thesis
      by (auto simp: Let_def split: prod.splits)
  qed
qed

lemma locate_loop_bounds:
  assumes "\<forall>tn\<in>set tns. loc_text tn = textContent (loc_node tn)"
    and "case start of None \<Rightarrow> True | Some (n, off) \<Rightarrow> off \<le> length (textContent n)"
    and "locate_loop pf matchIndex matchEnd start normalizedPos tns = (Some (sn, so), Some (en, eo))"
  shows "so \<le> length (textContent sn) \<and> eo \<le> length (textContent en)"
  using assms
proof (induction tns arbitrary: start normalizedPos)
  case Nil
  then show ?case by simp
next
  case (Cons tn tns)
  define e where "e = normalizedPos + int (length (normalizeText pf (loc_text tn)))"
  define start1 where
    "start1 = (if start = None \<and> matchIndex \<ge> normalizedPos \<and> matchIndex < e
               then Some (loc_node tn,
                          mapNormalizedToActual (loc_text tn) (matchIndex - normalizedPos))
               else start)"
  have eq: "locate_loop pf matchIndex matchEnd start normalizedPos (tn # tns) =
      (if start1 \<noteq> None \<and> matchEnd > normalizedPos \<and> matchEnd \<le> e
       then (start1,
             Some (loc_node tn, mapNormalizedToActual (loc_text tn) (matchEnd - normalizedPos)))
       else if start1 \<noteq> None \<and> matchEnd = e
       then (start1, Some (loc_node tn, length (loc_text tn)))
       else locate_loop pf matchIndex matchEnd start1 (e + 1) tns)"
    unfolding start1_def e_def by (simp only: locate_loop.simps Let_def)
  have tx: "loc_text tn = textContent (loc_node tn)" using Cons.prems(1) by simp
  have s1: "case start1 of None \<Rightarrow> True | Some (n, off) \<Rightarrow> off \<le> length (textContent n)"
  proof (cases "start = None \<and> matchIndex \<ge> normalizedPos \<and> matchIndex < e")
    case True
    then have "start1 = Some (loc_node tn,
        mapNormalizedToActual (loc_text tn) (matchIndex - normalizedPos))"
      by (simp add: start1_def)
    then show ?thesis
      using mapNormalizedToActual_le [of "loc_text tn" "matchIndex - normalizedPos"] tx by simp
  next
    case False
    then have "start1 = start" unfolding start1_def by (simp only: if_False)
    with Cons.prems(2) show ?thesis by simp
  qed
  have rest: "\<forall>tn\<in>set tns. loc_text tn = textContent (loc_node tn)"
    using Cons.prems(1) by simp
  from Cons.prems(3) have res:
    "(if start1 \<noteq> None \<and> matchEnd > normalizedPos \<and> matchEnd \<le> e
       then (start1,
             Some (loc_node tn, mapNormalizedToActual (loc_text tn) (matchEnd - normalizedPos)))
       else if start1 \<noteq> None \<and> matchEnd = e
       then (start1, Some (loc_node tn, length (loc_text tn)))
       else locate_loop pf matchIndex matchEnd start1 (e + 1) tns) = (Some (sn, so), Some (en, eo))"
    by (simp only: eq)
  show ?case
  proof (cases "start1 \<noteq> None \<and> matchEnd > normalizedPos \<and> matchEnd \<le> e")
    case True
    with res have r: "start1 = Some (sn, so)" "en = loc_node tn"
      "eo = mapNormalizedToActual (loc_text tn) (matchEnd - normalizedPos)"
      by simp_all
    from r(1) s1 have "so \<le> length (textContent sn)" by simp
    moreover from r(2,3) tx have "eo \<le> length (textContent en)"
      using mapNormalizedToActual_le [of "loc_text tn" "matchEnd - normalizedPos"] by simp
    ultimately show ?thesis by simp
  next
    case False
    note notA = False
    show ?thesis
    proof (cases "start1 \<noteq> None \<and> matchEnd = e")
      case True
      with notA res have r: "start1 = Some (sn, so)" "en = loc_node tn"
        "eo = length (loc_text tn)"
        by simp_all
      from r(1) s1 have "so \<le> length (textContent sn)" by simp
      moreover from r(2,3) tx have "eo \<le> length (textContent en)" by simp
      ultimately show ?thesis by simp
    next
      case False
      from res
      have "locate_loop pf matchIndex matchEnd start1 (e + 1) tns = (Some (sn, so), Some (en, eo))"
        by (simp only: notA False if_False)
      from Cons.IH [OF rest s1 this] show ?thesis .
    qed
  qed
qed


lemma createRange_clamped:
  "createRange (sn, min so (length (textContent sn))) (en, min eo (length (textContent en))) =
     Some \<lparr>startContainer = sn, startOffset = min so (length (textContent sn)),
           endContainer = en, endOffset = min eo (length (textContent en))\<rparr>"
  by (simp add: createRange_def)

lemma findRangeForText_Some:
  assumes "findRangeForText pf doc searchText = Inr (Some r)"
  shows "\<exists>so eo. startOffset r = min so (length (textContent (startContainer r))) \<and>
                 endOffset r = min eo (length (textContent (endContainer r)))"
proof -
  from assms obtain sn so en eo where
    "createRange (sn, min so (length (textContent sn))) (en, min eo (length (textContent en)))
       = Some r"
    by (auto simp: findRangeForText_def Let_def
        split: sum.splits prod.splits if_splits option.splits)
  then have "r = \<lparr>startContainer = sn, startOffset = min so (length (textContent sn)),
           endContainer = en, endOffset = min eo (length (textContent en))\<rparr>"
    by (simp add: createRange_clamped)
  then show ?thesis by auto
qed

lemma findRangeForText_located:
  assumes c: "collectTextNodes doc = Inr (textNodes, fullText)"
    and m: "indexOf (normalizeText pf fullText) searchText \<noteq> - 1"
    and l: "locate_loop pf (indexOf (normalizeText pf fullText) searchText)
              (indexOf (normalizeText pf fullText) searchText + int (length searchText))
              None 0 textNodes = (Some (sn, so), Some (en, eo))"
  shows "so \<le> length (textContent sn) \<and> eo \<le> length (textContent en) \<and>
         findRangeForText pf doc searchText =
           Inr (Some \<lparr>startContainer = sn, startOffset = so,
                       endContainer = en, endOffset = eo\<rparr>)"
proof -
  from c obtain body where
    "collect_loop [] (filter locateAccept (walkText body)) = (textNodes, fullText)"
    by (auto simp: collectTextNodes_def split: option.splits)
  with collect_loop_text [of "[]" "filter locateAccept (walkText body)"]
  have tx: "\<forall>tn\<in>set textNodes. loc_text tn = textContent (loc_node tn)" by simp
  have st: "case (None :: (tnode \<times> nat) option) of None \<Rightarrow> True
            | Some (n, off) \<Rightarrow> off \<le> length (textContent n)" by simp
  from locate_loop_bounds [OF tx st l]
  have b: "so \<le> length (textContent sn)" "eo \<le> length (textContent en)" by simp_all
  then have mn: "min so (length (textContent sn)) = so" "min eo (length (textContent en)) = eo"
    by simp_all
  have "findRangeForText pf doc searchText =
      Inr (createRange (sn, min so (length (textContent sn))) (en, min eo (length (textContent en))))"
    using m by (simp add: findRangeForText_def c Let_def l)
  also have "\<dots> = Inr (Some \<lparr>startContainer = sn, startOffset = so,
                       endContainer = en, endOffset = eo\<rparr>)"
    using b by (simp add: createRange_def)
  finally show ?thesis using b by simp
qed

text \<open>
  Claim C10. For every text and every \<open>normalizedPos \<ge> 0\<close>, \<open>mapNormalizedToActual\<close> returns
  an integer in \<open>[0, text.length]\<close>. Consequently, whenever the mapping loop of
  \<open>findRangeForText\<close> locates both boundaries, their offsets lie within their text nodes
  (the \<open>Math.min\<close> clamp leaves them as they are), \<open>setStart\<close> and \<open>setEnd\<close> do not throw,
  and \<open>findRangeForText\<close> returns the range with exactly these boundaries; every range it
  returns has both offsets within the length of its text node.
\<close>

theorem range_offsets_in_bounds:
  assumes "0 \<le> normalizedPos"
  shows "0 \<le> int (mapNormalizedToActual t normalizedPos) \<and>
         mapNormalizedToActual t normalizedPos \<le> length t \<and>
         (\<forall>textNodes fullText sn so en eo.
            collectTextNodes doc = Inr (textNodes, fullText) \<longrightarrow>
            indexOf (normalizeText pf fullText) searchText \<noteq> - 1 \<longrightarrow>
            locate_loop pf (indexOf (normalizeText pf fullText) searchText)
              (indexOf (normalizeText pf fullText) searchText + int (length searchText))
              None 0 textNodes = (Some (sn, so), Some (en, eo)) \<longrightarrow>
            so \<le> length (textContent sn) \<and> eo \<le> length (textContent en) \<and>
            findRangeForText pf doc searchText =
              Inr (Some \<lparr>startContainer = sn, startOffset = so,
                          endContainer = en, endOffset = eo\<rparr>)) \<and>
         (\<forall>r. findRangeForText pf doc searchText = Inr (Some r) \<longrightarrow>
              startOffset r \<le> length (textContent (startContainer r)) \<and>
              endOffset r \<le> length (textContent (endContainer r)))"
proof (intro conjI allI impI)
  show "0 \<le> int (mapNormalizedToActual t normalizedPos)" by simp
  show "mapNormalizedToActual t normalizedPos \<le> length t" by (rule mapNormalizedToActual_le)
next
  fix textNodes fullText sn so en eo
  assume c: "collectTextNodes doc = Inr (textNodes, fullText)"
    and m: "indexOf (normalizeText pf fullText) searchText \<noteq> - 1"
    and l: "locate_loop pf (indexOf (normalizeText pf fullText) searchText)
              (indexOf (normalizeText pf fullText) searchText + int (length searchText))
              None 0 textNodes = (Some (sn, so), Some (en, eo))"
  from findRangeForText_located [OF c m l]
  show "so \<le> length (textContent sn)" and "eo \<le> length (textContent en)"
    and "findRangeForText pf doc searchText =
              Inr (Some \<lparr>startContainer = sn, startOffset = so,
                          endContainer = en, endOffset = eo\<rparr>)"
    by simp_all
next
  fix r assume "findRangeForText pf doc searchText = Inr (Some r)"
  from findRangeForText_Some [OF this]
  show "startOffset r \<le> length (textContent (startContainer r))"
    and "endOffset r \<le> length (textContent (endContainer r))" by auto
qed

lemma hello_collected:
  "collectTextNodes hello_doc =
     Inr ([\<lparr>loc_node = hello_text, loc_start = 0, loc_text = js ''Hello world''\<rparr>],
          js ''Hello world '')"
  by (simp add: collectTextNodes_def locateAccept_def hello_doc_def hello_text_def
      str_eval dom_eval)

lemma hello_match:
  "indexOf (normalizeText api_platform (js ''Hello world '')) (js ''lo wo'') = 3"
  by (simp add: normalizeText_def api_platform_def str_eval)

lemma hello_located:
  "locate_loop api_platform 3 (3 + int (length (js ''lo wo''))) None 0
     [\<lparr>loc_node = hello_text, loc_start = 0, loc_text = js ''Hello world''\<rparr>] =
   (Some (hello_text, 3), Some (hello_text, 8))"
  by (simp add: normalizeText_def api_platform_def mapNormalizedToActual_def str_eval)

theorem range_offsets_in_bounds_witness:
  "(0 :: int) \<le> 1 \<and>
   mapNormalizedToActual (js ''  abc'') 1 = 1 \<and>
   length (js ''  abc'') = 5 \<and>
   collectTextNodes hello_doc =
     Inr ([\<lparr>loc_node = hello_text, loc_start = 0, loc_text = js ''Hello world''\<rparr>],
          js ''Hello world '') \<and>
   indexOf (normalizeText api_platform (js ''Hello world '')) (js ''lo wo'') = 3 \<and>
   locate_loop api_platform 3 (3 + int (length (js ''lo wo''))) None 0
     [\<lparr>loc_node = hello_text, loc_start = 0, loc_text = js ''Hello world''\<rparr>] =
     (Some (hello_text, 3), Some (hello_text, 8)) \<and>
   findRangeForText api_platform hello_doc (js ''lo wo'') =
     Inr (Some \<lparr>startContainer = hello_text, startOffset = 3,
                 endContainer = hello_text, endOffset = 8\<rparr>) \<and>
   length (textContent hello_text) = 11"
proof -
  have h: "(0 :: int) \<le> 1" by simp
  have m: "mapNormalizedToActual (js ''  abc'') 1 = 1"
    by (simp add: mapNormalizedToActual_def js_def isWhiteSpace_def)
  have ne: "indexOf (normalizeText api_platform (js ''Hello world '')) (js ''lo wo'') \<noteq> - 1"
    by (simp add: hello_match)
  have l: "locate_loop api_platform
       (indexOf (normalizeText api_platform (js ''Hello world '')) (js ''lo wo''))
       (indexOf (normalizeText api_platform (js ''Hello world '')) (js ''lo wo'')
          + int (length (js ''lo wo''))) None 0
       [\<lparr>loc_node = hello_text, loc_start = 0, loc_text = js ''Hello world''\<rparr>] =
     (Some (hello_text, 3), Some (hello_text, 8))"
    by (simp only: hello_match hello_located)
  from range_offsets_in_bounds [OF h, of "js ''  abc''" hello_doc api_platform "js ''lo wo''"]
    hello_collected ne l
  have "findRangeForText api_platform hello_doc (js ''lo wo'') =
     Inr (Some \<lparr>startContainer = hello_text, startOffset = 3,
                 endContainer = hello_text, endOffset = 8\<rparr>)"
    by blast
  with h m hello_collected hello_match hello_located show ?thesis
    by (simp add: js_def hello_text_def)
qed

text \<open>
  Claim C5, as stated, fails: the locator has its own, weaker filter. A text node inside a
  \<open>nav\<close> element is taken into the locator's flattened string and is rejected by the
  Extractor.
\<close>

theorem locator_rules_counterexample:
  "collectTextNodes nav_doc =
     Inr ([\<lparr>loc_node = nav_text, loc_start = 0, loc_text = js ''Site links''\<rparr>],
          js ''Site links '') \<and>
   extractPageText nav_doc = Inr []"
  by (simp add: collectTextNodes_def nav_doc_def nav_text_def locateAccept_def
      extractPageText_def searchRoot_def extractAccept_def shouldSkipElement_def SKIP_TAGS_def
      mainContentSelector_def hasClass_def isAsciiSpace_def str_eval dom_eval)

lemma collect_loop_nodes:
  "loc_node ` set (fst (collect_loop full ns)) = {n \<in> set ns. trim (textContent n) \<noteq> []}"
proof (induction ns arbitrary: full)
  case Nil
  show ?case by simp
next
  case (Cons n ns)
  show ?case
  proof (cases "trim (textContent n) = []")
    case True
    with Cons.IH [of full] show ?thesis by auto
  next
    case False
    with Cons.IH [of "full @ textContent n @ [SP]"] show ?thesis
      by (auto simp: Let_def split: prod.splits)
  qed
qed

lemma extract_loop_nodes:
  "frag_node ` set (extract_loop off ns) \<subseteq> set ns"
proof (induction ns arbitrary: off)
  case Nil
  show ?case by simp
next
  case (Cons n ns)
  from Cons.IH [of off] Cons.IH [of "off + int (length (trim (textContent n))) + 1"]
  show ?case by (auto simp: Let_def)
qed

lemma extractAccept_parent:
  assumes "extractAccept n"
  obtains parent rest where "parents n = parent # rest"
    and "display parent \<noteq> js ''none''" and "visibility parent \<noteq> js ''hidden''"
    and "tagName parent \<notin> set SKIP_TAGS" and "trim (textContent n) \<noteq> []"
proof -
  from assms obtain parent rest where p: "parents n = parent # rest"
    by (cases "parents n") (auto simp: extractAccept_def)
  from assms p have d: "display parent \<noteq> js ''none''" "visibility parent \<noteq> js ''hidden''"
    and sk: "\<not> shouldSkipElement (parent # rest)" and t: "trim (textContent n) \<noteq> []"
    by (auto simp: extractAccept_def Let_def split: if_splits)
  from sk have tg: "tagName parent \<notin> set SKIP_TAGS"
    by (auto simp: shouldSkipElement_def split: if_splits)
  show ?thesis by (rule that [OF p d tg t])
qed

lemma four_tags_skipped:
  "set (map js [''SCRIPT'', ''STYLE'', ''NOSCRIPT'', ''TEMPLATE'']) \<subseteq> set SKIP_TAGS"
  by (simp add: SKIP_TAGS_def)

lemma extractAccept_locateAccept:
  assumes "extractAccept n"
  shows "locateAccept n \<and> trim (textContent n) \<noteq> []"
proof -
  from assms obtain parent rest where p: "parents n = parent # rest"
    and d: "display parent \<noteq> js ''none''" "visibility parent \<noteq> js ''hidden''"
    and tg: "tagName parent \<notin> set SKIP_TAGS" and t: "trim (textContent n) \<noteq> []"
    by (rule extractAccept_parent)
  from tg four_tags_skipped
  have "tagName parent \<notin> set (map js [''SCRIPT'', ''STYLE'', ''NOSCRIPT'', ''TEMPLATE''])"
    by blast
  with p d t show ?thesis by (simp add: locateAccept_def)
qed

lemma locateAccept_iff:
  "locateAccept n \<longleftrightarrow>
     (case parents n of
        [] \<Rightarrow> False
      | parent # _ \<Rightarrow>
          display parent \<noteq> js ''none'' \<and> visibility parent \<noteq> js ''hidden'' \<and>
          tagName parent \<notin> {js ''SCRIPT'', js ''STYLE'', js ''NOSCRIPT'', js ''TEMPLATE''})"
  by (simp add: locateAccept_def split: list.splits)

text \<open>
  Claim C5, amended: the locator rebuilds its flattened string from the text nodes below
  \<open>document.body\<close> under rules of its own: a node contributes if and only if its parent
  element is rendered (\<open>display\<close> not \<open>none\<close>, \<open>visibility\<close> not \<open>hidden\<close>), the parent's
  tag is none of \<open>SCRIPT\<close>, \<open>STYLE\<close>, \<open>NOSCRIPT\<close>, \<open>TEMPLATE\<close>, and its text is not only
  white space. Every node below \<open>document.body\<close> that the Extractor accepts contributes to
  the locator's string; the converse does not hold.
\<close>

theorem locator_eligibility:
  assumes "documentBody doc = Some body"
  shows "\<exists>tns full. collectTextNodes doc = Inr (tns, full) \<and>
           (\<forall>n. n \<in> loc_node ` set tns \<longleftrightarrow>
                  n \<in> set (walkText body) \<and>
                  (case parents n of
                     [] \<Rightarrow> False
                   | parent # _ \<Rightarrow>
                       display parent \<noteq> js ''none'' \<and> visibility parent \<noteq> js ''hidden'' \<and>
                       tagName parent \<notin>
                         {js ''SCRIPT'', js ''STYLE'', js ''NOSCRIPT'', js ''TEMPLATE''}) \<and>
                  trim (textContent n) \<noteq> []) \<and>
           (\<forall>fs. extractPageText doc = Inr fs \<longrightarrow>
                 (\<forall>f\<in>set fs. frag_node f \<in> set (walkText body) \<longrightarrow>
                              frag_node f \<in> loc_node ` set tns))"
proof -
  obtain tns full where cl: "collect_loop [] (filter locateAccept (walkText body)) = (tns, full)"
    by (cases "collect_loop [] (filter locateAccept (walkText body))") auto
  then have c: "collectTextNodes doc = Inr (tns, full)"
    using assms by (simp add: collectTextNodes_def)
  have nodes: "loc_node ` set tns =
      {n \<in> set (filter locateAccept (walkText body)). trim (textContent n) \<noteq> []}"
    using collect_loop_nodes [of "[]" "filter locateAccept (walkText body)"] cl by simp
  have a: "\<forall>n. n \<in> loc_node ` set tns \<longleftrightarrow>
                  n \<in> set (walkText body) \<and>
                  (case parents n of
                     [] \<Rightarrow> False
                   | parent # _ \<Rightarrow>
                       display parent \<noteq> js ''none'' \<and> visibility parent \<noteq> js ''hidden'' \<and>
                       tagName parent \<notin>
                         {js ''SCRIPT'', js ''STYLE'', js ''NOSCRIPT'', js ''TEMPLATE''}) \<and>
                  trim (textContent n) \<noteq> []"
    unfolding nodes by (auto simp: locateAccept_iff)
  have b: "\<forall>fs. extractPageText doc = Inr fs \<longrightarrow>
                 (\<forall>f\<in>set fs. frag_node f \<in> set (walkText body) \<longrightarrow>
                              frag_node f \<in> loc_node ` set tns)"
  proof (intro allI impI ballI)
    fix fs f
    assume e: "extractPageText doc = Inr fs" and f: "f \<in> set fs"
      and w: "frag_node f \<in> set (walkText body)"
    from e obtain r where "fs = extract_loop 0 (filter extractAccept (walkText r))"
      by (auto simp: extractPageText_def split: option.splits)
    with f extract_loop_nodes [of 0 "filter extractAccept (walkText r)"]
    have "extractAccept (frag_node f)" by auto
    from extractAccept_locateAccept [OF this] w
    show "frag_node f \<in> loc_node ` set tns" unfolding nodes by simp
  qed
  from c a b show ?thesis by blast
qed

lemma hello_body:
  "documentBody hello_doc =
     Some ([plain ''HTML''], [1], ElemN (plain ''BODY'') [ElemN (plain ''P'') [TextN (js ''Hello world'')]])"
  by (simp add: hello_doc_def dom_eval js_def)

theorem locator_eligibility_witness:
  "documentBody hello_doc =
     Some ([plain ''HTML''], [1], ElemN (plain ''BODY'') [ElemN (plain ''P'') [TextN (js ''Hello world'')]]) \<and>
   collectTextNodes hello_doc =
     Inr ([\<lparr>loc_node = hello_text, loc_start = 0, loc_text = js ''Hello world''\<rparr>],
          js ''Hello world '') \<and>
   extractPageText hello_doc =
     Inr [\<lparr>frag_text = js ''Hello world'', frag_node = hello_text, frag_startOffset = 0\<rparr>]"
  using locator_eligibility [OF hello_body] hello_body
  by (simp add: collectTextNodes_def hello_doc_def hello_text_def locateAccept_def
      extractPageText_def searchRoot_def extractAccept_def shouldSkipElement_def SKIP_TAGS_def
      SKIP_PATTERNS_def patternTest_def
      mainContentSelector_def hasClass_def isAsciiSpace_def str_eval dom_eval)

section \<open>Properties of the highlight registry\<close>

lemmas registry_eval = highlightText_def removeHighlight_def updateHighlights_def
  mapDelete_def injectHighlightStyles_def findTextRanges_def normalizeText_def
  searchStrategies_def getFirstWords_def findRangeForText_def collectTextNodes_def
  locateAccept_def createRange_def mapNormalizedToActual_def setActiveHighlight_def mapGet_def

lemma chunk1_active_eq:
  "chunk1_active = \<lparr>highlightedChunks = [(js ''chunk-1'', [hello_range])],
       activeHighlightId = Some (js ''chunk-1''),
       cssHighlight = None, cssActiveHighlight = Some [hello_range]\<rparr>"
  by (simp add: chunk1_active_def api_platform_def emptyRegistry_def registry_eval
      hello_doc_def hello_range_def hello_text_def str_eval dom_eval)

lemma nonexistent_not_found:
  "findTextRanges api_platform hello_doc (js ''nonexistent text'') = Inr []"
  by (simp add: api_platform_def registry_eval hello_doc_def str_eval dom_eval)

lemma hello_styles: "injectHighlightStyles hello_doc = Inr ()"
  by (simp add: injectHighlightStyles_def hello_doc_def str_eval dom_eval)

text \<open>
  Claim C1, as stated, fails where \<open>id\<close> has a prior entry: \<open>highlightText\<close> begins with
  \<open>removeHighlight(id)\<close>. With \<open>chunk-1\<close> highlighted and active, a search for a text that
  is not in the document returns \<open>false\<close> and leaves the empty registry: the count drops
  from 1 to 0 and the active marker is cleared.
\<close>

theorem highlightText_unchanged_counterexample:
  "getHighlightCount chunk1_active = 1 \<and>
   activeHighlightId chunk1_active = Some (js ''chunk-1'') \<and>
   highlightText api_platform hello_doc chunk1_active (js ''chunk-1'') (js ''nonexistent text'') =
     (Inr False, emptyRegistry) \<and>
   getHighlightCount emptyRegistry = 0"
  using nonexistent_not_found hello_styles
  by (simp add: chunk1_active_eq getHighlightCount_def highlightText_def removeHighlight_def
      updateHighlights_def mapDelete_def emptyRegistry_def api_platform_def)

lemma updateHighlights_registry [simp]:
  "highlightedChunks (updateHighlights pf st) = highlightedChunks st"
  "activeHighlightId (updateHighlights pf st) = activeHighlightId st"
  by (simp_all add: updateHighlights_def Let_def)

lemma mapGet_mapDelete: "mapGet (mapDelete k m) i = (if i = k then None else mapGet m i)"
  by (induction m) (auto simp: mapGet_def mapDelete_def)

lemma mapGet_mapSet: "mapGet (mapSet k v m) i = (if i = k then Some v else mapGet m i)"
  by (induction m) (auto simp: mapGet_def)

lemma mapDelete_absent: "mapGet m k = None \<Longrightarrow> mapDelete k m = m"
  by (induction m) (auto simp: mapGet_def mapDelete_def split: if_splits)

lemma filter_absent:
  "mapGet m k = None \<Longrightarrow> filter (\<lambda>entry. fst entry \<noteq> k) m = m"
  "mapGet m k = None \<Longrightarrow> filter (\<lambda>entry. fst entry = k) m = []"
  by (induction m) (auto simp: mapGet_def split: if_splits)

lemma removeHighlight_registry:
  "highlightedChunks (removeHighlight pf st chunkId) = mapDelete chunkId (highlightedChunks st)"
  "activeHighlightId (removeHighlight pf st chunkId) =
     (if activeHighlightId st = Some chunkId then None else activeHighlightId st)"
  by (simp_all add: removeHighlight_def)

lemma highlightTextFallback_state:
  "fst (highlightTextFallback pf doc st chunkId searchText) \<noteq> Inr True \<Longrightarrow>
     snd (highlightTextFallback pf doc st chunkId searchText) = st"
  by (auto simp: highlightTextFallback_def Let_def split: sum.splits option.splits if_splits)

lemma highlightText_state:
  "fst (highlightText pf doc st chunkId searchText) \<noteq> Inr True \<Longrightarrow>
     snd (highlightText pf doc st chunkId searchText) = removeHighlight pf st chunkId"
  by (auto simp: highlightText_def Let_def highlightTextFallback_state
      split: sum.splits if_splits)

lemma findTextRanges_short:
  "length (normalizeText pf searchText) < 3 \<Longrightarrow> findTextRanges pf doc searchText = Inr []"
  by (simp add: findTextRanges_def)

text \<open>
  Claim C1, amended: \<open>highlightText(id, text)\<close> first removes a prior entry for \<open>id\<close> and
  clears the active marker if it is \<open>id\<close>. Whenever it does not return \<open>true\<close> the state is
  the one \<open>removeHighlight(id)\<close> leaves: no entry is added, the entries of all other ids
  are untouched, \<open>id\<close> has no entry, and the active marker is cleared only if it was \<open>id\<close>.
  With the Highlight API (and the style element injected), it returns \<open>false\<close> if the
  normalized text is shorter than 3 characters or no strategy finds a match; with the
  fallback, it returns \<open>false\<close> if the normalized text is not found. If \<open>id\<close> had no entry
  and was not active, entries, active marker and \<open>getHighlightCount()\<close> are unchanged.
\<close>

theorem highlightText_failure:
  "(fst (highlightText pf doc st chunkId searchText) \<noteq> Inr True \<longrightarrow>
      snd (highlightText pf doc st chunkId searchText) = removeHighlight pf st chunkId) \<and>
   (supportsHighlightAPI pf \<longrightarrow> injectHighlightStyles doc = Inr () \<longrightarrow>
      (length (normalizeText pf searchText) < 3 \<or> findTextRanges pf doc searchText = Inr []) \<longrightarrow>
      highlightText pf doc st chunkId searchText = (Inr False, removeHighlight pf st chunkId)) \<and>
   (\<not> supportsHighlightAPI pf \<longrightarrow>
      findRangeForText pf doc (normalizeText pf searchText) = Inr None \<longrightarrow>
      highlightText pf doc st chunkId searchText = (Inr False, removeHighlight pf st chunkId)) \<and>
   highlightedChunks (removeHighlight pf st chunkId) = mapDelete chunkId (highlightedChunks st) \<and>
   (\<forall>other. other \<noteq> chunkId \<longrightarrow>
      mapGet (highlightedChunks (removeHighlight pf st chunkId)) other =
        mapGet (highlightedChunks st) other) \<and>
   mapGet (highlightedChunks (removeHighlight pf st chunkId)) chunkId = None \<and>
   activeHighlightId (removeHighlight pf st chunkId) =
     (if activeHighlightId st = Some chunkId then None else activeHighlightId st) \<and>
   (mapGet (highlightedChunks st) chunkId = None \<longrightarrow> activeHighlightId st \<noteq> Some chunkId \<longrightarrow>
      highlightedChunks (removeHighlight pf st chunkId) = highlightedChunks st \<and>
      activeHighlightId (removeHighlight pf st chunkId) = activeHighlightId st \<and>
      getHighlightCount (removeHighlight pf st chunkId) = getHighlightCount st)"
proof (intro conjI impI allI)
  assume "fst (highlightText pf doc st chunkId searchText) \<noteq> Inr True"
  then show "snd (highlightText pf doc st chunkId searchText) = removeHighlight pf st chunkId"
    by (rule highlightText_state)
next
  assume api: "supportsHighlightAPI pf" and inj: "injectHighlightStyles doc = Inr ()"
    and "length (normalizeText pf searchText) < 3 \<or> findTextRanges pf doc searchText = Inr []"
  then have "findTextRanges pf doc searchText = Inr []"
    using findTextRanges_short by blast
  with api inj
  show "highlightText pf doc st chunkId searchText = (Inr False, removeHighlight pf st chunkId)"
    by (simp add: highlightText_def)
next
  assume "\<not> supportsHighlightAPI pf"
    and "findRangeForText pf doc (normalizeText pf searchText) = Inr None"
  then show "highlightText pf doc st chunkId searchText = (Inr False, removeHighlight pf st chunkId)"
    by (simp add: highlightText_def highlightTextFallback_def)
next
  show "highlightedChunks (removeHighlight pf st chunkId) = mapDelete chunkId (highlightedChunks st)"
    by (simp add: removeHighlight_registry)
next
  fix other assume "other \<noteq> chunkId"
  then show "mapGet (highlightedChunks (removeHighlight pf st chunkId)) other =
        mapGet (highlightedChunks st) other"
    by (simp add: removeHighlight_registry mapGet_mapDelete)
next
  show "mapGet (highlightedChunks (removeHighlight pf st chunkId)) chunkId = None"
    by (simp add: removeHighlight_registry mapGet_mapDelete)
next
  show "activeHighlightId (removeHighlight pf st chunkId) =
     (if activeHighlightId st = Some chunkId then None else activeHighlightId st)"
    by (simp add: removeHighlight_registry)
next
  assume a: "mapGet (highlightedChunks st) chunkId = None"
    and b: "activeHighlightId st \<noteq> Some chunkId"
  from a show "highlightedChunks (removeHighlight pf st chunkId) = highlightedChunks st"
    by (simp add: removeHighlight_registry mapDelete_absent)
  from b show "activeHighlightId (removeHighlight pf st chunkId) = activeHighlightId st"
    by (simp add: removeHighlight_registry)
  from a show "getHighlightCount (removeHighlight pf st chunkId) = getHighlightCount st"
    by (simp add: getHighlightCount_def removeHighlight_registry mapDelete_absent)
qed

lemma nonexistent_not_found_fallback:
  "findRangeForText fallback_platform hello_doc
     (normalizeText fallback_platform (js ''nonexistent text'')) = Inr None"
  by (simp add: fallback_platform_def registry_eval hello_doc_def str_eval dom_eval)

theorem highlightText_failure_witness:
  "supportsHighlightAPI api_platform \<and> injectHighlightStyles hello_doc = Inr () \<and>
   findTextRanges api_platform hello_doc (js ''nonexistent text'') = Inr [] \<and>
   highlightText api_platform hello_doc emptyRegistry (js ''chunk-1'') (js ''nonexistent text'') =
     (Inr False, emptyRegistry) \<and>
   length (normalizeText api_platform (js ''ab'')) = 2 \<and>
   highlightText api_platform hello_doc emptyRegistry (js ''chunk-1'') (js ''ab'') =
     (Inr False, emptyRegistry) \<and>
   \<not> supportsHighlightAPI fallback_platform \<and>
   highlightText fallback_platform hello_doc emptyRegistry (js ''chunk-1'') (js ''nonexistent text'') =
     (Inr False, emptyRegistry) \<and>
   mapGet (highlightedChunks emptyRegistry) (js ''chunk-1'') = None \<and>
   getHighlightCount (removeHighlight api_platform emptyRegistry (js ''chunk-1'')) =
     getHighlightCount emptyRegistry"
proof -
  have api: "supportsHighlightAPI api_platform" by (simp add: api_platform_def)
  have fb: "\<not> supportsHighlightAPI fallback_platform" by (simp add: fallback_platform_def)
  have short: "length (normalizeText api_platform (js ''ab'')) = 2"
    by (simp add: normalizeText_def api_platform_def str_eval)
  have r0: "removeHighlight api_platform emptyRegistry (js ''chunk-1'') = emptyRegistry"
    by (simp add: removeHighlight_def updateHighlights_def mapDelete_def emptyRegistry_def
        api_platform_def)
  have r1: "removeHighlight fallback_platform emptyRegistry (js ''chunk-1'') = emptyRegistry"
    by (simp add: removeHighlight_def updateHighlights_def mapDelete_def emptyRegistry_def
        fallback_platform_def)
  have g: "mapGet (highlightedChunks emptyRegistry) (js ''chunk-1'') = None"
    by (simp add: mapGet_def emptyRegistry_def)
  from highlightText_failure [of api_platform hello_doc emptyRegistry "js ''chunk-1''"
      "js ''nonexistent text''"]
    highlightText_failure [of api_platform hello_doc emptyRegistry "js ''chunk-1''" "js ''ab''"]
    highlightText_failure [of fallback_platform hello_doc emptyRegistry "js ''chunk-1''"
      "js ''nonexistent text''"]
    api fb short hello_styles nonexistent_not_found nonexistent_not_found_fallback r0 r1 g
  show ?thesis by simp
qed


text \<open>
  Claim C2, amended: for an id without an entry, \<open>setActiveHighlight(id)\<close> does not throw,
  does not scroll and leaves the registry entries as they were, but it sets the active
  marker to \<open>id\<close>; with the Highlight API no range is rendered active afterwards and all
  ranges are rendered as plain highlights (a previously active entry is demoted); without
  it, \<open>CSS.highlights\<close> is untouched.
\<close>

theorem setActiveHighlight_unknown:
  assumes "mapGet (highlightedChunks st) chunkId = None"
  shows "highlightedChunks (fst (setActiveHighlight pf st chunkId)) = highlightedChunks st \<and>
         snd (setActiveHighlight pf st chunkId) = None \<and>
         activeHighlightId (fst (setActiveHighlight pf st chunkId)) = Some chunkId \<and>
         (supportsHighlightAPI pf \<longrightarrow>
            cssActiveHighlight (fst (setActiveHighlight pf st chunkId)) = None \<and>
            cssHighlight (fst (setActiveHighlight pf st chunkId)) =
              (if concat (map snd (highlightedChunks st)) = [] then None
               else Some (concat (map snd (highlightedChunks st))))) \<and>
         (\<not> supportsHighlightAPI pf \<longrightarrow>
            cssActiveHighlight (fst (setActiveHighlight pf st chunkId)) = cssActiveHighlight st \<and>
            cssHighlight (fst (setActiveHighlight pf st chunkId)) = cssHighlight st)"
proof -
  let ?st1 = "updateHighlights pf (st\<lparr>activeHighlightId := Some chunkId\<rparr>)"
  have s: "setActiveHighlight pf st chunkId = (?st1, None)"
    using assms by (simp add: setActiveHighlight_def Let_def)
  have api: "supportsHighlightAPI pf \<Longrightarrow>
      cssActiveHighlight ?st1 = None \<and>
      cssHighlight ?st1 = (if concat (map snd (highlightedChunks st)) = [] then None
               else Some (concat (map snd (highlightedChunks st))))"
    by (simp add: updateHighlights_def Let_def filter_absent [OF assms])
  have fb: "\<not> supportsHighlightAPI pf \<Longrightarrow>
      cssActiveHighlight ?st1 = cssActiveHighlight st \<and> cssHighlight ?st1 = cssHighlight st"
    by (simp add: updateHighlights_def)
  show ?thesis unfolding s using api fb by simp
qed

lemma ghost_unknown: "mapGet (highlightedChunks chunk1_active) (js ''ghost'') = None"
  by (simp add: chunk1_active_eq mapGet_def js_def)

theorem setActiveHighlight_unknown_witness:
  "mapGet (highlightedChunks chunk1_active) (js ''ghost'') = None \<and>
   highlightedChunks (fst (setActiveHighlight api_platform chunk1_active (js ''ghost''))) =
     highlightedChunks chunk1_active \<and>
   snd (setActiveHighlight api_platform chunk1_active (js ''ghost'')) = None \<and>
   activeHighlightId (fst (setActiveHighlight api_platform chunk1_active (js ''ghost''))) =
     Some (js ''ghost'')"
  using setActiveHighlight_unknown [OF ghost_unknown, of api_platform] ghost_unknown
  by simp

text \<open>
  Claim C2, as stated, fails: \<open>setActiveHighlight\<close> assigns \<open>activeHighlightId\<close> before any
  look-up. With \<open>chunk-1\<close> highlighted and active, \<open>setActiveHighlight('ghost')\<close> moves the
  active marker to \<open>ghost\<close> and the ranges of \<open>chunk-1\<close> from the active to the plain
  highlight.
\<close>

theorem setActiveHighlight_noop_counterexample:
  "activeHighlightId chunk1_active = Some (js ''chunk-1'') \<and>
   cssHighlight chunk1_active = None \<and>
   cssActiveHighlight chunk1_active = Some [hello_range] \<and>
   mapGet (highlightedChunks chunk1_active) (js ''ghost'') = None \<and>
   setActiveHighlight api_platform chunk1_active (js ''ghost'') =
     (\<lparr>highlightedChunks = [(js ''chunk-1'', [hello_range])],
       activeHighlightId = Some (js ''ghost''),
       cssHighlight = Some [hello_range], cssActiveHighlight = None\<rparr>, None)"
  by (simp add: chunk1_active_eq setActiveHighlight_def updateHighlights_def mapGet_def
      api_platform_def js_def Let_def)


lemma activeHasEntry_updateHighlights:
  "activeHasEntry (updateHighlights pf s) = activeHasEntry s"
  by (simp add: activeHasEntry_def split: option.splits)

lemma step_safe:
  assumes inv: "activeHasEntry st"
    and ok: "case c of SetActiveHighlight chunkId \<Rightarrow> mapGet (highlightedChunks st) chunkId \<noteq> None
             | _ \<Rightarrow> True"
  shows "activeHasEntry (step pf st c)"
proof (cases c)
  case (HighlightText doc chunkId searchText)
  let ?st1 = "removeHighlight pf st chunkId"
  have r1: "activeHighlightId ?st1 \<noteq> Some chunkId"
    by (simp add: removeHighlight_registry)
  have r2: "activeHasEntry ?st1"
    using inv by (auto simp: activeHasEntry_def removeHighlight_registry mapGet_mapDelete
        split: option.splits)
  show ?thesis
  proof (cases "fst (highlightText pf doc st chunkId searchText) = Inr True")
    case False
    from highlightText_state [OF False] r2 HighlightText show ?thesis by simp
  next
    case True
    then obtain ranges where
      d: "snd (highlightText pf doc st chunkId searchText) =
         updateHighlights pf (?st1\<lparr>highlightedChunks := mapSet chunkId ranges
               (highlightedChunks ?st1)\<rparr>) \<or>
       snd (highlightText pf doc st chunkId searchText) =
         ?st1\<lparr>highlightedChunks := mapSet chunkId ranges (highlightedChunks ?st1)\<rparr>"
      by (auto simp: highlightText_def highlightTextFallback_def Let_def
          split: sum.splits option.splits if_splits)
    let ?st2 = "?st1\<lparr>highlightedChunks := mapSet chunkId ranges (highlightedChunks ?st1)\<rparr>"
    have a: "activeHasEntry ?st2"
      using r1 r2 by (auto simp: activeHasEntry_def mapGet_mapSet split: option.splits)
    have b: "activeHasEntry (updateHighlights pf ?st2)"
      using a by (simp only: activeHasEntry_updateHighlights)
    have "activeHasEntry (snd (highlightText pf doc st chunkId searchText))"
      using d
    proof
      assume "snd (highlightText pf doc st chunkId searchText) = updateHighlights pf ?st2"
      with b show ?thesis by (simp only:)
    next
      assume "snd (highlightText pf doc st chunkId searchText) = ?st2"
      with a show ?thesis by (simp only:)
    qed
    then show ?thesis by (simp only: HighlightText step.simps)
  qed
next
  case (RemoveHighlight chunkId)
  with inv show ?thesis
    by (auto simp: activeHasEntry_def removeHighlight_registry mapGet_mapDelete
        split: option.splits)
next
  case (SetActiveHighlight chunkId)
  with ok show ?thesis by (simp add: activeHasEntry_def setActiveHighlight_def Let_def)
next
  case ClearAllHighlights
  then show ?thesis by (simp add: activeHasEntry_def clearAllHighlights_def)
qed

lemma run_safe:
  "activeHasEntry st \<Longrightarrow> activatesKnown pf st cs \<Longrightarrow> activeHasEntry (run pf st cs)"
proof (induction cs arbitrary: st)
  case Nil
  then show ?case by simp
next
  case (Cons c cs)
  from Cons.prems have "activeHasEntry (step pf st c)"
    by (intro step_safe) auto
  with Cons show ?case by simp
qed

text \<open>
  Claim C3, amended: in every state reached from the empty registry by a finite sequence of
  \<open>highlightText\<close>, \<open>removeHighlight\<close>, \<open>clearAllHighlights\<close> calls and of
  \<open>setActiveHighlight\<close> calls on ids that have an entry when called, an active id has a
  range entry.
\<close>

theorem active_id_has_entry:
  assumes "activatesKnown pf emptyRegistry calls"
  shows "activeHasEntry (run pf emptyRegistry calls)"
  using assms by (intro run_safe) (simp_all add: activeHasEntry_def emptyRegistry_def)

lemma hello_calls_known:
  "activatesKnown api_platform emptyRegistry
     [HighlightText hello_doc (js ''chunk-1'') (js ''Hello world''),
      SetActiveHighlight (js ''chunk-1'')]"
  by (simp add: api_platform_def emptyRegistry_def registry_eval
      hello_doc_def hello_range_def hello_text_def str_eval dom_eval)

theorem active_id_has_entry_witness:
  "activatesKnown api_platform emptyRegistry
     [HighlightText hello_doc (js ''chunk-1'') (js ''Hello world''),
      SetActiveHighlight (js ''chunk-1'')] \<and>
   activeHasEntry chunk1_active \<and>
   activeHighlightId chunk1_active = Some (js ''chunk-1'') \<and>
   mapGet (highlightedChunks chunk1_active) (js ''chunk-1'') = Some [hello_range]"
proof -
  have a: "activeHasEntry chunk1_active"
    using active_id_has_entry [OF hello_calls_known] by (simp only: chunk1_active_def)
  have b: "activeHighlightId chunk1_active = Some (js ''chunk-1'')"
    by (simp add: chunk1_active_eq)
  have c: "mapGet (highlightedChunks chunk1_active) (js ''chunk-1'') = Some [hello_range]"
    by (simp add: chunk1_active_eq mapGet_def)
  from hello_calls_known a b c show ?thesis by (simp only: simp_thms)
qed

text \<open>
  Claim C3, as stated, fails: one \<open>setActiveHighlight\<close> call on the empty registry leaves
  an active id without an entry.
\<close>

theorem active_id_dangles_counterexample:
  "activeHighlightId (run api_platform emptyRegistry [SetActiveHighlight (js ''ghost'')]) =
     Some (js ''ghost'') \<and>
   mapGet (highlightedChunks (run api_platform emptyRegistry [SetActiveHighlight (js ''ghost'')]))
     (js ''ghost'') = None \<and>
   \<not> activeHasEntry (run api_platform emptyRegistry [SetActiveHighlight (js ''ghost'')])"
  by (simp add: activeHasEntry_def setActiveHighlight_def updateHighlights_def mapGet_def
      emptyRegistry_def api_platform_def)

end
